theory Spec2Isabelle
  imports Complex_Main "HOL-Library.Log_Nat"
begin

section \<open>Data model (types.ts)\<close>

text \<open>
  A JavaScript \<^verbatim>\<open>number\<close> is modelled as a \<^typ>\<open>real\<close>: arithmetic is exact, and
  the rounding, infinities and NaN of IEEE doubles are outside the model. One property
  depends on the rounding, the splitting of a wheel delta; for it the arithmetic of
  \<^verbatim>\<open>handleWheel\<close> is modelled a second time, with every operation rounded to a
  double (subsection \<open>Wheel events in double precision\<close>). Image identifiers
  are the strings that \<^verbatim>\<open>App.processFiles\<close> draws from \<^verbatim>\<open>crypto.randomUUID()\<close>;
  the transform table, a plain object \<^verbatim>\<open>Record<string, TransformState>\<close>, is modelled as
  a map over its own keys, so no identifier is taken to name a property that a JavaScript
  object inherits from its prototype.
\<close>

record Dimensions =
  width :: real
  height :: real

record ImageState =
  image_id :: string
  src :: string
  name :: string
  dimensions :: "Dimensions option"
  size_bytes :: "real option"

record TransformState =
  x :: real
  y :: real
  scale :: real

type_synonym TransformTable = "string \<rightharpoonup> TransformState"

text \<open>
  Reading a property of \<^verbatim>\<open>undefined\<close> raises a \<^verbatim>\<open>TypeError\<close>. A handler that
  throws leaves behind the table as mutated so far, so both outcomes carry a table.
\<close>

datatype error = TypeError

datatype result = Ok (tableOf: TransformTable) | Throw error (tableOf: TransformTable)

section \<open>App.tsx\<close>

text \<open>\<^verbatim>\<open>handleRemove\<close>: \<^verbatim>\<open>setImages(prev => prev.filter(img => img.id !== id))\<close>.\<close>

definition handleRemove :: "string \<Rightarrow> ImageState list \<Rightarrow> ImageState list" where
  "handleRemove rid prev = filter (\<lambda>img. image_id img \<noteq> rid) prev"

section \<open>ComparisonViewer.tsx\<close>

subsection \<open>Reconciliation of the transform table (the effect on \<^verbatim>\<open>[images]\<close>)\<close>

text \<open>
  First loop of the effect: an image without an entry gets \<^verbatim>\<open>{ x: 0, y: 0, scale: 1 }\<close>.
  An entry is an object, hence truthy, so \<^verbatim>\<open>!transformsRef.current[img.id]\<close> holds exactly
  when the key is absent.
\<close>

fun initTransforms :: "ImageState list \<Rightarrow> TransformTable \<Rightarrow> TransformTable" where
  "initTransforms [] t = t"
| "initTransforms (img # imgs) t =
     initTransforms imgs
       (if t (image_id img) = None
        then t(image_id img \<mapsto> \<lparr>x = 0, y = 0, scale = 1\<rparr>)
        else t)"

text \<open>Second loop: every key that is not the id of a current image is deleted.\<close>

definition cleanupRemoved :: "ImageState list \<Rightarrow> TransformTable \<Rightarrow> TransformTable" where
  "cleanupRemoved images t =
     (let activeIds = set (map image_id images)
      in (\<lambda>key. if key \<in> activeIds then t key else None))"

definition ensure :: "ImageState list \<Rightarrow> TransformTable \<Rightarrow> TransformTable" where
  "ensure images t = cleanupRemoved images (initTransforms images t)"

subsection \<open>applyTransformUpdate\<close>

text \<open>
  \<^verbatim>\<open>!targetId\<close> on a \<^verbatim>\<open>string | null\<close>: \<^verbatim>\<open>null\<close> and the empty string are falsy.
\<close>

definition falsy :: "string option \<Rightarrow> bool" where
  "falsy s = (case s of None \<Rightarrow> True | Some str \<Rightarrow> str = [])"

text \<open>\<^verbatim>\<open>images[0]?.id\<close>\<close>

definition firstId :: "ImageState list \<Rightarrow> string option" where
  "firstId images = (case images of [] \<Rightarrow> None | img # _ \<Rightarrow> Some (image_id img))"

text \<open>\<^verbatim>\<open>const referenceId = targetId || images[0]?.id\<close>\<close>

definition referenceId :: "string option \<Rightarrow> ImageState list \<Rightarrow> string option" where
  "referenceId targetId images = (if falsy targetId then firstId images else targetId)"

text \<open>\<^verbatim>\<open>images.forEach(img => { transformsRef.current[img.id] = { ...newState }; })\<close>\<close>

fun assignAll :: "ImageState list \<Rightarrow> TransformState \<Rightarrow> TransformTable \<Rightarrow> TransformTable" where
  "assignAll [] newState t = t"
| "assignAll (img # imgs) newState t = assignAll imgs newState (t(image_id img \<mapsto> newState))"

text \<open>
  Both updaters that the component passes read \<^verbatim>\<open>prev.scale\<close>, so calling them on a
  missing reference entry throws before anything is written. The independent branch is
  guarded by \<^verbatim>\<open>if (transformsRef.current[targetId])\<close>.
\<close>

definition applyTransformUpdate ::
  "ImageState list \<Rightarrow> bool \<Rightarrow> string option \<Rightarrow> (TransformState \<Rightarrow> TransformState)
     \<Rightarrow> TransformTable \<Rightarrow> result" where
  "applyTransformUpdate images isSynced targetId updater t =
     (if isSynced \<or> falsy targetId then
        (case referenceId targetId images of
           None \<Rightarrow> Ok t
         | Some r \<Rightarrow>
             if r = [] then Ok t
             else (case t r of
                     None \<Rightarrow> Throw TypeError t
                   | Some prev \<Rightarrow> Ok (assignAll images (updater prev) t)))
      else
        (case targetId of
           None \<Rightarrow> Ok t
         | Some tid \<Rightarrow>
             (case t tid of
                None \<Rightarrow> Ok t
              | Some prev \<Rightarrow> Ok (t(tid \<mapsto> updater prev)))))"

subsection \<open>Handlers\<close>

definition ZOOM_SPEED :: real where
  "ZOOM_SPEED = 0.001"

definition wheelUpdater :: "real \<Rightarrow> TransformState \<Rightarrow> TransformState" where
  "wheelUpdater deltaY prev =
     (let delta = deltaY * - ZOOM_SPEED
      in prev\<lparr>scale := min (max 0.1 (scale prev + delta)) 20\<rparr>)"

definition handleWheel ::
  "ImageState list \<Rightarrow> bool \<Rightarrow> real \<Rightarrow> string \<Rightarrow> TransformTable \<Rightarrow> result" where
  "handleWheel images isSynced deltaY tid t =
     applyTransformUpdate images isSynced (Some tid) (wheelUpdater deltaY) t"

datatype direction = In | Out

definition zoomBtnUpdater :: "direction \<Rightarrow> TransformState \<Rightarrow> TransformState" where
  "zoomBtnUpdater dir prev =
     (let factor = (if dir = In then 1.25 else 0.8)
      in prev\<lparr>scale := min (max 0.1 (scale prev * factor)) 20\<rparr>)"

definition handleZoomBtn ::
  "ImageState list \<Rightarrow> bool \<Rightarrow> string option \<Rightarrow> direction \<Rightarrow> TransformTable \<Rightarrow> result" where
  "handleZoomBtn images isSynced tid dir t =
     applyTransformUpdate images isSynced tid (zoomBtnUpdater dir) t"

text \<open>
  \<^verbatim>\<open>handleReset\<close> stores one shared object \<^verbatim>\<open>resetState\<close> under every key. No handler
  writes into a stored object (each builds a new one and replaces the entry), so the sharing
  cannot be observed and entries are modelled as values.
\<close>

definition handleReset ::
  "ImageState list \<Rightarrow> bool \<Rightarrow> string option \<Rightarrow> TransformTable \<Rightarrow> result" where
  "handleReset images isSynced tid t =
     (let resetState = \<lparr>x = 0, y = 0, scale = 1\<rparr> in
      if isSynced \<or> falsy tid then Ok (assignAll images resetState t)
      else (case tid of
              None \<Rightarrow> Ok t
            | Some i \<Rightarrow> Ok (t(i \<mapsto> resetState))))"

text \<open>
  The synced loop of \<^verbatim>\<open>handleMouseMove\<close>. An image without an entry makes \<^verbatim>\<open>t.x\<close>
  throw; the entries written before stay written.
\<close>

fun panAll :: "ImageState list \<Rightarrow> real \<Rightarrow> real \<Rightarrow> TransformTable \<Rightarrow> result" where
  "panAll [] dx dy t = Ok t"
| "panAll (img # imgs) dx dy t =
     (case t (image_id img) of
        None \<Rightarrow> Throw TypeError t
      | Some tr \<Rightarrow> panAll imgs dx dy (t(image_id img \<mapsto> tr\<lparr>x := x tr + dx, y := y tr + dy\<rparr>)))"

definition handleMouseMove ::
  "ImageState list \<Rightarrow> bool \<Rightarrow> bool \<Rightarrow> string option \<Rightarrow> real \<Rightarrow> real
     \<Rightarrow> TransformTable \<Rightarrow> result" where
  "handleMouseMove images isSynced isPanning activeImageId dx dy t =
     (if \<not> isPanning \<or> falsy activeImageId then Ok t
      else if isSynced then panAll images dx dy t
      else (case activeImageId of
              None \<Rightarrow> Ok t
            | Some targetId \<Rightarrow>
                (case t targetId of
                   None \<Rightarrow> Ok t
                 | Some tr \<Rightarrow> Ok (t(targetId \<mapsto> tr\<lparr>x := x tr + dx, y := y tr + dy\<rparr>)))))"

subsection \<open>Mutation operations and their sequences\<close>

text \<open>
  One user interaction on the viewer: a wheel event on a tile, a zoom button (of a tile, or
  of the global toolbar with no target), a pointer move during a drag that started on a
  tile, and a reset.
\<close>

datatype operation =
    Wheel string real
  | ZoomBtn "string option" direction
  | Pan string real real
  | Reset "string option"

fun step :: "ImageState list \<Rightarrow> bool \<Rightarrow> operation \<Rightarrow> TransformTable \<Rightarrow> result" where
  "step images isSynced (Wheel tid deltaY) t = handleWheel images isSynced deltaY tid t"
| "step images isSynced (ZoomBtn tid dir) t = handleZoomBtn images isSynced tid dir t"
| "step images isSynced (Pan tid dx dy) t = handleMouseMove images isSynced True (Some tid) dx dy t"
| "step images isSynced (Reset tid) t = handleReset images isSynced tid t"

text \<open>
  Events are handled one after the other on the table the previous handler left, also when
  that handler threw. Each event comes with the sync mode in force when it is handled.
\<close>

fun run :: "ImageState list \<Rightarrow> (bool \<times> operation) list \<Rightarrow> TransformTable \<Rightarrow> TransformTable" where
  "run images [] t = t"
| "run images ((isSynced, ev) # evs) t = run images evs (tableOf (step images isSynced ev t))"

subsection \<open>Wheel events in double precision\<close>

text \<open>
  A double is a real \<open>m * 2^q\<close> with an integer \<open>m\<close> of at most 53 bits and
  \<open>q \<ge> -1074\<close>. \<open>pow2 e\<close> is \<open>2^e\<close> for an integer \<open>e\<close>, and \<open>binExponent v\<close> is the
  binary exponent of \<open>v \<noteq> 0\<close>, the \<open>e\<close> with \<open>2^e \<le> \<bar>v\<bar> < 2^(e+1)\<close>, computed from the bit
  length of an integer. \<open>roundToDouble\<close> is the rounding of IEEE 754 arithmetic (to
  nearest, ties to even): it rounds \<open>v\<close> to a multiple of the spacing \<open>2^(e-52)\<close> of the
  doubles around it, and of \<open>2^(-1074)\<close> in the subnormal range. Overflow to infinity is not
  modelled: \<open>deltaY\<close> is a finite double, so no product or sum of \<^verbatim>\<open>handleWheel\<close>
  reaches \<open>2^1024\<close>.
\<close>

definition pow2 :: "int \<Rightarrow> real" where
  "pow2 e = (if 0 \<le> e then 2 ^ nat e else 1 / 2 ^ nat (- e))"

definition binExponent :: "real \<Rightarrow> int" where
  "binExponent v =
     (if 1 \<le> \<bar>v\<bar> then bitlen \<lfloor>\<bar>v\<bar>\<rfloor> - 1 else - bitlen (\<lceil>1 / \<bar>v\<bar>\<rceil> - 1))"

definition roundHalfEven :: "real \<Rightarrow> int" where
  "roundHalfEven v =
     (let f = \<lfloor>v\<rfloor>; r = v - of_int f
      in if r < 1 / 2 then f else if 1 / 2 < r then f + 1 else if even f then f else f + 1)"

definition roundToDouble :: "real \<Rightarrow> real" where
  "roundToDouble v =
     (let q = max (binExponent v) (- 1022) - 52
      in of_int (roundHalfEven (v / pow2 q)) * pow2 q)"

text \<open>
  \<^verbatim>\<open>handleWheel\<close> in doubles. The literals \<^verbatim>\<open>0.001\<close> and \<^verbatim>\<open>0.1\<close> denote the
  doubles nearest to them and \<^verbatim>\<open>20\<close> is a double; negation, \<^verbatim>\<open>Math.max\<close> and
  \<^verbatim>\<open>Math.min\<close> are exact; the product \<^verbatim>\<open>e.deltaY * -ZOOM_SPEED\<close> and the sum
  \<^verbatim>\<open>prev.scale + delta\<close> are each rounded once.
\<close>

definition wheelUpdaterDouble :: "real \<Rightarrow> TransformState \<Rightarrow> TransformState" where
  "wheelUpdaterDouble deltaY prev =
     (let delta = roundToDouble (deltaY * - roundToDouble ZOOM_SPEED)
      in prev\<lparr>scale := min (max (roundToDouble 0.1) (roundToDouble (scale prev + delta))) 20\<rparr>)"

definition handleWheelDouble ::
  "ImageState list \<Rightarrow> bool \<Rightarrow> real \<Rightarrow> string \<Rightarrow> TransformTable \<Rightarrow> result" where
  "handleWheelDouble images isSynced deltaY tid t =
     applyTransformUpdate images isSynced (Some tid) (wheelUpdaterDouble deltaY) t"

fun runWheelDouble ::
  "ImageState list \<Rightarrow> bool \<Rightarrow> string \<Rightarrow> real list \<Rightarrow> TransformTable \<Rightarrow> TransformTable" where
  "runWheelDouble images isSynced tid [] t = t"
| "runWheelDouble images isSynced tid (deltaY # rest) t =
     runWheelDouble images isSynced tid rest (tableOf (handleWheelDouble images isSynced deltaY tid t))"

subsection \<open>Vocabulary of the properties\<close>

text \<open>The target an operation is invoked with (\<open>None\<close> for the global toolbar).\<close>

fun targetOf :: "operation \<Rightarrow> string option" where
  "targetOf (Wheel tid deltaY) = Some tid"
| "targetOf (ZoomBtn tid dir) = tid"
| "targetOf (Pan tid dx dy) = Some tid"
| "targetOf (Reset tid) = tid"

fun isPan :: "operation \<Rightarrow> bool" where
  "isPan (Pan tid dx dy) = True"
| "isPan ev = False"

text \<open>The new transform that an operation computes from a previous one.\<close>

fun updaterOf :: "operation \<Rightarrow> TransformState \<Rightarrow> TransformState" where
  "updaterOf (Wheel tid deltaY) prev = wheelUpdater deltaY prev"
| "updaterOf (ZoomBtn tid dir) prev = zoomBtnUpdater dir prev"
| "updaterOf (Pan tid dx dy) prev = prev\<lparr>x := x prev + dx, y := y prev + dy\<rparr>"
| "updaterOf (Reset tid) prev = \<lparr>x = 0, y = 0, scale = 1\<rparr>"

text \<open>The scale bounds of the zoom handlers.\<close>

definition scalesInRange :: "TransformTable \<Rightarrow> bool" where
  "scalesInRange t = (\<forall>k tr. t k = Some tr \<longrightarrow> 0.1 \<le> scale tr \<and> scale tr \<le> 20)"

text \<open>
  The scale that a wheel event computes from the scale \<open>s\<close>: as \<open>wheelUpdaterDouble\<close>
  does, and the same expression without the two roundings.
\<close>

definition wheelScaleDouble :: "real \<Rightarrow> real \<Rightarrow> real" where
  "wheelScaleDouble deltaY s =
     min (max (roundToDouble 0.1) (roundToDouble (s + roundToDouble (deltaY * - roundToDouble ZOOM_SPEED)))) 20"

definition wheelScaleExact :: "real \<Rightarrow> real \<Rightarrow> real" where
  "wheelScaleExact deltaY s =
     min (max (roundToDouble 0.1) (s + deltaY * - roundToDouble ZOOM_SPEED)) 20"

text \<open>An image record with a given identifier, for concrete scenarios.\<close>

abbreviation img :: "string \<Rightarrow> ImageState" where
  "img i \<equiv> \<lparr>image_id = i, src = [], name = [], dimensions = None, size_bytes = None\<rparr>"

section \<open>Basic facts about the loops\<close>

lemma assignAll_apply:
  "assignAll images s t k = (if k \<in> image_id ` set images then Some s else t k)"
  by (induction images arbitrary: t) auto

lemma initTransforms_apply:
  "initTransforms images t k =
     (if k \<in> image_id ` set images \<and> t k = None then Some \<lparr>x = 0, y = 0, scale = 1\<rparr> else t k)"
  by (induction images arbitrary: t) auto

lemma ensure_apply:
  "ensure images t k =
     (if k \<in> image_id ` set images
      then (case t k of None \<Rightarrow> Some \<lparr>x = 0, y = 0, scale = 1\<rparr> | Some v \<Rightarrow> Some v)
      else None)"
  by (simp add: ensure_def cleanupRemoved_def initTransforms_apply split: option.splits)

lemma dom_ensure: "dom (ensure images t) = image_id ` set images"
  by (auto simp: dom_def ensure_apply split: option.splits if_splits)

lemma ids_handleRemove:
  "image_id ` set (handleRemove rid images) = image_id ` set images - {rid}"
  by (auto simp: handleRemove_def)

section \<open>Basic facts about the handlers\<close>

lemma applyTransformUpdate_global:
  assumes "firstId images = Some r" "r \<noteq> []" "t r = Some prev"
  shows "applyTransformUpdate images isSynced None updater t = Ok (assignAll images (updater prev) t)"
  using assms by (simp add: applyTransformUpdate_def referenceId_def falsy_def)

lemma applyTransformUpdate_independent:
  assumes "a \<noteq> []"
  shows "applyTransformUpdate images False (Some a) updater t =
           Ok (case t a of None \<Rightarrow> t | Some prev \<Rightarrow> t(a \<mapsto> updater prev))"
  using assms by (simp add: applyTransformUpdate_def falsy_def split: option.splits)

lemma handleMouseMove_independent:
  assumes "a \<noteq> []"
  shows "handleMouseMove images False True (Some a) dx dy t =
           Ok (case t a of None \<Rightarrow> t | Some tr \<Rightarrow> t(a \<mapsto> tr\<lparr>x := x tr + dx, y := y tr + dy\<rparr>))"
  using assms by (simp add: handleMouseMove_def falsy_def split: option.splits)

lemma handleReset_independent:
  assumes "a \<noteq> []"
  shows "handleReset images False (Some a) t = Ok (t(a \<mapsto> \<lparr>x = 0, y = 0, scale = 1\<rparr>))"
  using assms by (simp add: handleReset_def falsy_def)

lemma applyTransformUpdate_synced:
  assumes "referenceId targetId images = Some r" "r \<noteq> []" "t r = Some prev"
  shows "applyTransformUpdate images True targetId updater t = Ok (assignAll images (updater prev) t)"
  using assms by (simp add: applyTransformUpdate_def)

lemma referenceId_tracked:
  assumes "images \<noteq> []" and "\<forall>a. targetId = Some a \<longrightarrow> a \<in> image_id ` set images"
    and "[] \<notin> image_id ` set images"
  shows "\<exists>r. referenceId targetId images = Some r \<and> r \<in> image_id ` set images"
proof (cases targetId)
  case None
  with assms(1) show ?thesis
    by (cases images) (auto simp: referenceId_def falsy_def firstId_def)
next
  case (Some a)
  with assms(2) have ain: "a \<in> image_id ` set images" by simp
  with assms(3) have "a \<noteq> []" by blast
  with ain Some show ?thesis by (simp add: referenceId_def falsy_def)
qed

lemma panAll_Ok:
  "distinct (map image_id images) \<Longrightarrow> image_id ` set images \<subseteq> dom t \<Longrightarrow>
   panAll images dx dy t =
     Ok (\<lambda>k. if k \<in> image_id ` set images
              then map_option (\<lambda>tr. tr\<lparr>x := x tr + dx, y := y tr + dy\<rparr>) (t k)
              else t k)"
proof (induction images arbitrary: t)
  case Nil
  then show ?case by simp
next
  case (Cons img imgs)
  from Cons.prems obtain tr where tr: "t (image_id img) = Some tr" by auto
  let ?t1 = "t(image_id img \<mapsto> tr\<lparr>x := x tr + dx, y := y tr + dy\<rparr>)"
  have d: "distinct (map image_id imgs)" and notin: "image_id img \<notin> image_id ` set imgs"
    using Cons.prems(1) by auto
  have sub: "image_id ` set imgs \<subseteq> dom ?t1" using Cons.prems(2) by auto
  have "panAll (img # imgs) dx dy t = panAll imgs dx dy ?t1" using tr by simp
  also have "\<dots> = Ok (\<lambda>k. if k \<in> image_id ` set imgs
              then map_option (\<lambda>tr. tr\<lparr>x := x tr + dx, y := y tr + dy\<rparr>) (?t1 k)
              else ?t1 k)"
    by (rule Cons.IH [OF d sub])
  also have "(\<lambda>k. if k \<in> image_id ` set imgs
              then map_option (\<lambda>tr. tr\<lparr>x := x tr + dx, y := y tr + dy\<rparr>) (?t1 k)
              else ?t1 k) = (\<lambda>k. if k \<in> image_id ` set (img # imgs)
              then map_option (\<lambda>tr. tr\<lparr>x := x tr + dx, y := y tr + dy\<rparr>) (t k)
              else t k)"
    using notin tr by (auto simp: fun_eq_iff)
  finally show ?case .
qed

section \<open>Reconciliation\<close>

text \<open>
  C9. Reconciling twice with the same images gives the same table as reconciling once. The
  reconciled table has an entry for exactly the identifiers of the images; an identifier
  that had no entry gets the identity transform, and one that had an entry keeps it.
\<close>

theorem ensure_idempotent_exact:
  "ensure images (ensure images t) = ensure images t
   \<and> dom (ensure images t) = image_id ` set images
   \<and> (\<forall>k \<in> image_id ` set images.
        ensure images t k = (case t k of None \<Rightarrow> Some \<lparr>x = 0, y = 0, scale = 1\<rparr> | Some v \<Rightarrow> Some v))"
proof -
  have "ensure images (ensure images t) k = ensure images t k" for k
    by (simp add: ensure_apply split: option.splits)
  then have "ensure images (ensure images t) = ensure images t" by (simp add: fun_eq_iff)
  then show ?thesis by (simp add: dom_ensure ensure_apply)
qed

theorem ensure_idempotent_exact_witness:
  "(let images = [img ''a'', img ''b''];
        t = [''a'' \<mapsto> \<lparr>x = 5, y = -3, scale = 2\<rparr>, ''z'' \<mapsto> \<lparr>x = 1, y = 1, scale = 1\<rparr>]
    in ensure images (ensure images t) = ensure images t
       \<and> dom (ensure images t) = {''a'', ''b''}
       \<and> ensure images t ''b'' = Some \<lparr>x = 0, y = 0, scale = 1\<rparr>
       \<and> ensure images t ''a'' = Some \<lparr>x = 5, y = -3, scale = 2\<rparr>)"
  using ensure_idempotent_exact [of "[img ''a'', img ''b'']"
      "[''a'' \<mapsto> \<lparr>x = 5, y = -3, scale = 2\<rparr>, ''z'' \<mapsto> \<lparr>x = 1, y = 1, scale = 1\<rparr>]"]
  by (simp add: Let_def)

text \<open>
  C10. Let the table have exactly the identifiers of the tracked images as keys. After an
  image is removed (\<open>handleRemove\<close>) and the table reconciled, the removed identifier has
  no entry, every other key has the entry it had, and the keys are exactly the identifiers
  of the remaining images. When the identifiers are distinct and the removed one was
  tracked, one entry fewer is left (two of three).
\<close>

theorem remove_reconcile_frame:
  assumes inv: "dom t = image_id ` set images"
  shows "ensure (handleRemove rid images) t rid = None
    \<and> (\<forall>k. k \<noteq> rid \<longrightarrow> ensure (handleRemove rid images) t k = t k)
    \<and> dom (ensure (handleRemove rid images) t) = image_id ` set (handleRemove rid images)
    \<and> (distinct (map image_id images) \<longrightarrow> rid \<in> image_id ` set images \<longrightarrow>
         card (dom (ensure (handleRemove rid images) t)) = length images - 1)"
proof -
  have a: "ensure (handleRemove rid images) t rid = None"
    by (simp add: ensure_apply ids_handleRemove)
  have b: "ensure (handleRemove rid images) t k = t k" if "k \<noteq> rid" for k
  proof (cases "k \<in> image_id ` set images")
    case True
    with inv obtain v where "t k = Some v" by auto
    with True that show ?thesis by (simp add: ensure_apply ids_handleRemove)
  next
    case False
    with inv have "t k = None" by auto
    with False show ?thesis by (simp add: ensure_apply ids_handleRemove)
  qed
  have c: "dom (ensure (handleRemove rid images) t) = image_id ` set (handleRemove rid images)"
    by (rule dom_ensure)
  have d: "card (dom (ensure (handleRemove rid images) t)) = length images - 1"
    if dist: "distinct (map image_id images)" and mem: "rid \<in> image_id ` set images"
  proof -
    have "card (set (map image_id images)) = length images"
      using dist distinct_card [of "map image_id images"] by simp
    moreover have "dom (ensure (handleRemove rid images) t) = set (map image_id images) - {rid}"
      by (simp add: c ids_handleRemove)
    moreover have "rid \<in> set (map image_id images)" using mem by simp
    ultimately show ?thesis by simp
  qed
  from a b c d show ?thesis by blast
qed

theorem remove_reconcile_frame_witness:
  "(let images = [img ''a'', img ''b'', img ''c''];
        t = [''a'' \<mapsto> \<lparr>x = 5, y = -3, scale = 2\<rparr>, ''b'' \<mapsto> \<lparr>x = 0, y = 0, scale = 1\<rparr>,
             ''c'' \<mapsto> \<lparr>x = 1, y = 1, scale = 4\<rparr>];
        t' = ensure (handleRemove ''b'' images) t
    in dom t = image_id ` set images
       \<and> t' ''b'' = None
       \<and> t' ''a'' = Some \<lparr>x = 5, y = -3, scale = 2\<rparr>
       \<and> t' ''c'' = Some \<lparr>x = 1, y = 1, scale = 4\<rparr>
       \<and> dom t' = {''a'', ''c''}
       \<and> card (dom t') = 2)"
proof -
  have h: "dom [''a'' \<mapsto> \<lparr>x = 5, y = -3, scale = 2\<rparr>, ''b'' \<mapsto> \<lparr>x = 0, y = 0, scale = 1\<rparr>,
                ''c'' \<mapsto> \<lparr>x = 1, y = 1, scale = 4\<rparr>]
     = image_id ` set [img ''a'', img ''b'', img ''c'']"
    by auto
  show ?thesis
    using h remove_reconcile_frame [OF h, of "''b''"]
    by (simp add: handleRemove_def Let_def)
qed

section \<open>Reset\<close>

text \<open>
  C7, as stated, fails: in independent mode a reset invoked with the explicit target
  \<open>a\<close> leaves the other tracked image \<open>b\<close> at its prior transform, which is not the
  identity.
\<close>

theorem reset_independent_target_counterexample:
  "tableOf (handleReset [img ''a'', img ''b''] False (Some ''a'')
      [''a'' \<mapsto> \<lparr>x = 5, y = -3, scale = 2\<rparr>, ''b'' \<mapsto> \<lparr>x = 7, y = 1, scale = 4\<rparr>]) ''b''
     = Some \<lparr>x = 7, y = 1, scale = 4\<rparr>
   \<and> tableOf (handleReset [img ''a'', img ''b''] False (Some ''a'')
      [''a'' \<mapsto> \<lparr>x = 5, y = -3, scale = 2\<rparr>, ''b'' \<mapsto> \<lparr>x = 7, y = 1, scale = 4\<rparr>]) ''b''
     \<noteq> Some \<lparr>x = 0, y = 0, scale = 1\<rparr>"
  by (simp add: handleReset_def falsy_def)

text \<open>
  C7, amended. A reset in synced mode, or with no target, sets the transform of every
  tracked image to the identity, whatever the table held before, and changes no other
  entry. A reset in independent mode with an explicit target sets that target's entry to
  the identity and leaves every other entry as it was.
\<close>

theorem reset_identity:
  "(isSynced \<or> falsy tid \<longrightarrow>
      (\<exists>t'. handleReset images isSynced tid t = Ok t'
         \<and> (\<forall>i \<in> set images. t' (image_id i) = Some \<lparr>x = 0, y = 0, scale = 1\<rparr>)
         \<and> (\<forall>k. k \<notin> image_id ` set images \<longrightarrow> t' k = t k)))
   \<and> (\<not> isSynced \<longrightarrow> a \<noteq> [] \<longrightarrow>
      (\<exists>t'. handleReset images isSynced (Some a) t = Ok t'
         \<and> t' a = Some \<lparr>x = 0, y = 0, scale = 1\<rparr>
         \<and> (\<forall>k. k \<noteq> a \<longrightarrow> t' k = t k)))"
  by (auto simp: handleReset_def assignAll_apply falsy_def)

theorem reset_identity_witness:
  "(let images = [img ''a'', img ''b''];
        t = [''a'' \<mapsto> \<lparr>x = 5, y = -3, scale = 2\<rparr>, ''b'' \<mapsto> \<lparr>x = 7, y = 1, scale = 4\<rparr>]
    in falsy None
       \<and> tableOf (handleReset images False None t) ''a'' = Some \<lparr>x = 0, y = 0, scale = 1\<rparr>
       \<and> tableOf (handleReset images False None t) ''b'' = Some \<lparr>x = 0, y = 0, scale = 1\<rparr>
       \<and> ''b'' \<noteq> []
       \<and> tableOf (handleReset images False (Some ''b'') t) ''b'' = Some \<lparr>x = 0, y = 0, scale = 1\<rparr>
       \<and> tableOf (handleReset images False (Some ''b'') t) ''a'' = Some \<lparr>x = 5, y = -3, scale = 2\<rparr>)"
  using reset_identity [of False None "[img ''a'', img ''b'']"
      "[''a'' \<mapsto> \<lparr>x = 5, y = -3, scale = 2\<rparr>, ''b'' \<mapsto> \<lparr>x = 7, y = 1, scale = 4\<rparr>]" "''b''"]
  by (simp add: Let_def falsy_def handleReset_def)

section \<open>Independent mode\<close>

text \<open>
  C6. In independent mode an operation (wheel zoom, button zoom, pan step or reset) with
  the explicit target \<open>a\<close> returns normally and leaves the entry of every other key
  \<open>b\<close> unchanged. In particular, panning \<open>a\<close> by \<open>(5, -3)\<close> from the identity
  gives \<open>a\<close> the transform \<open>{x: 5, y: -3, scale: 1}\<close> and leaves \<open>b\<close> as it was.
  An identifier is a non-empty string; the empty string is falsy and the handlers take
  it for a missing target.
\<close>

theorem independent_frame:
  assumes "targetOf ev = Some a" and "a \<noteq> []" and "b \<noteq> a"
  shows "(\<exists>t'. step images False ev t = Ok t' \<and> t' b = t b)
    \<and> (t a = Some \<lparr>x = 0, y = 0, scale = 1\<rparr> \<longrightarrow>
         (\<exists>t'. step images False (Pan a 5 (-3)) t = Ok t'
            \<and> t' a = Some \<lparr>x = 5, y = -3, scale = 1\<rparr> \<and> t' b = t b))"
proof -
  have "\<exists>t'. step images False ev t = Ok t' \<and> t' b = t b"
    using assms
    by (cases ev)
      (auto simp: handleWheel_def handleZoomBtn_def applyTransformUpdate_independent
        handleMouseMove_independent handleReset_independent split: option.splits)
  moreover have "\<exists>t'. step images False (Pan a 5 (-3)) t = Ok t'
            \<and> t' a = Some \<lparr>x = 5, y = -3, scale = 1\<rparr> \<and> t' b = t b"
    if "t a = Some \<lparr>x = 0, y = 0, scale = 1\<rparr>"
    using that assms(2,3) by (simp add: handleMouseMove_independent)
  ultimately show ?thesis by blast
qed

theorem independent_frame_witness:
  "(let images = [img ''a'', img ''b''];
        t = [''a'' \<mapsto> \<lparr>x = 0, y = 0, scale = 1\<rparr>, ''b'' \<mapsto> \<lparr>x = 0, y = 0, scale = 1\<rparr>]
    in targetOf (Wheel ''a'' (-100)) = Some ''a'' \<and> ''a'' \<noteq> [] \<and> ''b'' \<noteq> ''a''
       \<and> tableOf (step images False (Wheel ''a'' (-100)) t) ''b'' = Some \<lparr>x = 0, y = 0, scale = 1\<rparr>
       \<and> tableOf (step images False (Wheel ''a'' (-100)) t) ''a'' = Some \<lparr>x = 0, y = 0, scale = 1.1\<rparr>
       \<and> tableOf (step images False (Pan ''a'' 5 (-3)) t) ''a'' = Some \<lparr>x = 5, y = -3, scale = 1\<rparr>
       \<and> tableOf (step images False (Pan ''a'' 5 (-3)) t) ''b'' = Some \<lparr>x = 0, y = 0, scale = 1\<rparr>)"
proof -
  have h1: "targetOf (Wheel ''a'' (-100)) = Some ''a''" by simp
  have h2: "''a'' \<noteq> []" by simp
  have h3: "''b'' \<noteq> ''a''" by simp
  show ?thesis
    using independent_frame [OF h1 h2 h3, of "[img ''a'', img ''b'']"
      "[''a'' \<mapsto> \<lparr>x = 0, y = 0, scale = 1\<rparr>, ''b'' \<mapsto> \<lparr>x = 0, y = 0, scale = 1\<rparr>]"]
    by (simp add: Let_def handleWheel_def handleMouseMove_def applyTransformUpdate_def falsy_def wheelUpdater_def ZOOM_SPEED_def)
qed

text \<open>
  C2, as stated, fails: in independent mode a zoom from the global toolbar (no target)
  is not applied to the first image only. It overwrites the transform of the second
  image \<open>b\<close> as well, with the new transform computed from the first image.
\<close>

theorem global_zoom_independent_counterexample:
  "tableOf (handleZoomBtn [img ''a'', img ''b''] False None In
      [''a'' \<mapsto> \<lparr>x = 0, y = 0, scale = 1\<rparr>, ''b'' \<mapsto> \<lparr>x = 5, y = -3, scale = 2\<rparr>]) ''b''
     = Some \<lparr>x = 0, y = 0, scale = 1.25\<rparr>
   \<and> tableOf (handleZoomBtn [img ''a'', img ''b''] False None In
      [''a'' \<mapsto> \<lparr>x = 0, y = 0, scale = 1\<rparr>, ''b'' \<mapsto> \<lparr>x = 5, y = -3, scale = 2\<rparr>]) ''b''
     \<noteq> Some \<lparr>x = 5, y = -3, scale = 2\<rparr>"
  by (simp add: handleZoomBtn_def applyTransformUpdate_def referenceId_def firstId_def falsy_def
      zoomBtnUpdater_def)

text \<open>
  C2, amended. In independent mode a zoom with no target is a no-op when no image is
  tracked; otherwise (the first tracked image having a non-empty identifier and an entry)
  the new transform is computed once from the first tracked image's transform and stored
  for every tracked image, all other entries staying as they were.
\<close>

theorem global_zoom_fan_out:
  "(images = [] \<longrightarrow> handleZoomBtn images False None dir t = Ok t)
   \<and> (\<forall>r prev. firstId images = Some r \<longrightarrow> r \<noteq> [] \<longrightarrow> t r = Some prev \<longrightarrow>
        (\<exists>t'. handleZoomBtn images False None dir t = Ok t'
           \<and> (\<forall>k. t' k = (if k \<in> image_id ` set images
                           then Some (zoomBtnUpdater dir prev) else t k))))"
  by (auto simp: handleZoomBtn_def applyTransformUpdate_global assignAll_apply)
    (simp add: applyTransformUpdate_def referenceId_def firstId_def falsy_def)

theorem global_zoom_fan_out_witness:
  "(let t = [''a'' \<mapsto> \<lparr>x = 0, y = 0, scale = 1\<rparr>, ''b'' \<mapsto> \<lparr>x = 5, y = -3, scale = 2\<rparr>]
    in handleZoomBtn [] False None Out t = Ok t
       \<and> firstId [img ''a'', img ''b''] = Some ''a'' \<and> ''a'' \<noteq> []
       \<and> t ''a'' = Some \<lparr>x = 0, y = 0, scale = 1\<rparr>
       \<and> tableOf (handleZoomBtn [img ''a'', img ''b''] False None Out t) ''a'' = Some \<lparr>x = 0, y = 0, scale = 0.8\<rparr>
       \<and> tableOf (handleZoomBtn [img ''a'', img ''b''] False None Out t) ''b'' = Some \<lparr>x = 0, y = 0, scale = 0.8\<rparr>)"
proof -
  let ?I = "[img ''a'', img ''b'']"
  let ?T = "[''a'' \<mapsto> \<lparr>x = 0, y = 0, scale = 1\<rparr>, ''b'' \<mapsto> \<lparr>x = 5, y = -3, scale = 2\<rparr>]"
  have e: "handleZoomBtn [] False None Out ?T = Ok ?T"
    using global_zoom_fan_out [of "[]" Out ?T] by simp
  have f: "firstId ?I = Some ''a''" by (simp add: firstId_def)
  have "\<exists>t'. handleZoomBtn ?I False None Out ?T = Ok t'
           \<and> (\<forall>k. t' k = (if k \<in> image_id ` set ?I
                  then Some (zoomBtnUpdater Out \<lparr>x = 0, y = 0, scale = 1\<rparr>) else ?T k))"
    using global_zoom_fan_out [of ?I Out ?T] f by simp
  then obtain t' where r: "handleZoomBtn ?I False None Out ?T = Ok t'"
    and v: "\<And>k. t' k = (if k \<in> image_id ` set ?I
                  then Some (zoomBtnUpdater Out \<lparr>x = 0, y = 0, scale = 1\<rparr>) else ?T k)"
    by blast
  have "t' ''a'' = Some \<lparr>x = 0, y = 0, scale = 0.8\<rparr>" and "t' ''b'' = Some \<lparr>x = 0, y = 0, scale = 0.8\<rparr>"
    by (simp_all add: v zoomBtnUpdater_def)
  with e f r show ?thesis by (simp add: Let_def)
qed

section \<open>Synced mode\<close>

text \<open>
  C1, as stated, fails for the pan step: in synced mode a pointer move adds the movement
  to each image's own transform, so two images whose transforms differed before the step
  still differ after it.
\<close>

theorem synced_pan_not_aligned_counterexample:
  "tableOf (step [img ''a'', img ''b''] True (Pan ''a'' 1 1)
      [''a'' \<mapsto> \<lparr>x = 5, y = -3, scale = 1\<rparr>, ''b'' \<mapsto> \<lparr>x = 0, y = 0, scale = 1\<rparr>]) ''a''
     = Some \<lparr>x = 6, y = -2, scale = 1\<rparr>
   \<and> tableOf (step [img ''a'', img ''b''] True (Pan ''a'' 1 1)
      [''a'' \<mapsto> \<lparr>x = 5, y = -3, scale = 1\<rparr>, ''b'' \<mapsto> \<lparr>x = 0, y = 0, scale = 1\<rparr>]) ''b''
     = Some \<lparr>x = 1, y = 1, scale = 1\<rparr>
   \<and> tableOf (step [img ''a'', img ''b''] True (Pan ''a'' 1 1)
      [''a'' \<mapsto> \<lparr>x = 5, y = -3, scale = 1\<rparr>, ''b'' \<mapsto> \<lparr>x = 0, y = 0, scale = 1\<rparr>]) ''a''
     \<noteq> tableOf (step [img ''a'', img ''b''] True (Pan ''a'' 1 1)
      [''a'' \<mapsto> \<lparr>x = 5, y = -3, scale = 1\<rparr>, ''b'' \<mapsto> \<lparr>x = 0, y = 0, scale = 1\<rparr>]) ''b''"
  by (simp add: handleMouseMove_def falsy_def)

text \<open>
  C1, amended. In synced mode, with non-empty identifiers and an entry for every tracked
  image, a wheel zoom, a button zoom or a reset (on a tracked target, or with no target)
  returns normally and leaves all tracked images with one and the same transform: the one
  computed once from the reference transform (the target's, else the first tracked
  image's). Entries of other keys are untouched. The pan step is left out: it moves each
  image from its own transform, which is the subject of C5.
\<close>

theorem synced_fan_out:
  assumes noPan: "\<not> isPan ev"
    and tracked: "\<forall>a. targetOf ev = Some a \<longrightarrow> a \<in> image_id ` set images"
    and entries: "image_id ` set images \<subseteq> dom t"
    and nonempty: "[] \<notin> image_id ` set images"
  shows "\<exists>t'. step images True ev t = Ok t'
      \<and> (\<forall>i \<in> set images. \<forall>j \<in> set images. t' (image_id i) = t' (image_id j))
      \<and> (\<forall>r prev. referenceId (targetOf ev) images = Some r \<longrightarrow> t r = Some prev \<longrightarrow>
            (\<forall>i \<in> set images. t' (image_id i) = Some (updaterOf ev prev)))
      \<and> (\<forall>k. k \<notin> image_id ` set images \<longrightarrow> t' k = t k)"
proof (cases "images = []")
  case True
  with tracked have "targetOf ev = None" by (cases "targetOf ev") auto
  with True noPan have "step images True ev t = Ok t"
    by (cases ev)
      (simp_all add: handleZoomBtn_def handleReset_def applyTransformUpdate_def
        referenceId_def falsy_def firstId_def)
  with True show ?thesis by simp
next
  case False
  from referenceId_tracked [OF False tracked nonempty]
  obtain r where r: "referenceId (targetOf ev) images = Some r" and rin: "r \<in> image_id ` set images"
    by blast
  from rin nonempty have rne: "r \<noteq> []" by blast
  from rin entries obtain prev where prev: "t r = Some prev" by auto
  have "step images True ev t = Ok (assignAll images (updaterOf ev prev) t)"
  proof (cases ev)
    case (Wheel tid deltaY)
    with r rne prev show ?thesis
      by (simp add: handleWheel_def applyTransformUpdate_synced)
  next
    case (ZoomBtn tid dir)
    with r rne prev show ?thesis
      by (simp add: handleZoomBtn_def applyTransformUpdate_synced)
  next
    case (Pan tid dx dy)
    with noPan show ?thesis by simp
  next
    case (Reset tid)
    then show ?thesis by (simp add: handleReset_def)
  qed
  with r prev show ?thesis by (simp add: assignAll_apply)
qed

theorem synced_fan_out_witness:
  "(let images = [img ''a'', img ''b''];
        t = [''a'' \<mapsto> \<lparr>x = 5, y = -3, scale = 1\<rparr>, ''b'' \<mapsto> \<lparr>x = 0, y = 0, scale = 2\<rparr>];
        ev = Wheel ''b'' (-1000)
    in \<not> isPan ev \<and> targetOf ev = Some ''b'' \<and> ''b'' \<in> image_id ` set images
       \<and> image_id ` set images \<subseteq> dom t \<and> [] \<notin> image_id ` set images
       \<and> referenceId (targetOf ev) images = Some ''b''
       \<and> tableOf (step images True ev t) ''a'' = Some \<lparr>x = 0, y = 0, scale = 3\<rparr>
       \<and> tableOf (step images True ev t) ''b'' = Some \<lparr>x = 0, y = 0, scale = 3\<rparr>)"
proof -
  let ?I = "[img ''a'', img ''b'']"
  let ?T = "[''a'' \<mapsto> \<lparr>x = 5, y = -3, scale = 1\<rparr>, ''b'' \<mapsto> \<lparr>x = 0, y = 0, scale = (2::real)\<rparr>]"
  let ?ev = "Wheel ''b'' (-1000)"
  have h1: "\<not> isPan ?ev" by simp
  have h2: "\<forall>a. targetOf ?ev = Some a \<longrightarrow> a \<in> image_id ` set ?I" by simp
  have h3: "image_id ` set ?I \<subseteq> dom ?T" by simp
  have h4: "[] \<notin> image_id ` set ?I" by simp
  have r: "referenceId (targetOf ?ev) ?I = Some ''b''" by (simp add: referenceId_def falsy_def)
  from synced_fan_out [OF h1 h2 h3 h4]
  obtain t' where s: "step ?I True ?ev ?T = Ok t'"
    and v: "\<forall>r prev. referenceId (targetOf ?ev) ?I = Some r \<longrightarrow> ?T r = Some prev \<longrightarrow>
            (\<forall>i \<in> set ?I. t' (image_id i) = Some (updaterOf ?ev prev))"
    by blast
  from v r have "\<forall>i \<in> set ?I. t' (image_id i) = Some (updaterOf ?ev \<lparr>x = 0, y = 0, scale = 2\<rparr>)"
    by simp
  then have "t' ''a'' = Some \<lparr>x = 0, y = 0, scale = 3\<rparr>" and "t' ''b'' = Some \<lparr>x = 0, y = 0, scale = 3\<rparr>"
    by (simp_all add: wheelUpdater_def ZOOM_SPEED_def)
  with s h1 h3 h4 r show ?thesis by (simp add: Let_def)
qed

text \<open>
  C5. In synced mode, with distinct identifiers and an entry for every tracked image, a
  pointer move by \<open>(dx, dy)\<close> during a drag (started on a tile with a non-empty
  identifier) returns normally, sets the offset of each
  tracked image to its own previous offset plus \<open>(dx, dy)\<close> and keeps its scale; so the
  difference between the offsets of any two tracked images is preserved.
\<close>

theorem synced_pan_step:
  assumes dist: "distinct (map image_id images)"
    and entries: "image_id ` set images \<subseteq> dom t"
    and act: "a \<noteq> []"
  shows "\<exists>t'. handleMouseMove images True True (Some a) dx dy t = Ok t'
      \<and> (\<forall>i \<in> set images. \<exists>tr. t (image_id i) = Some tr
            \<and> t' (image_id i) = Some \<lparr>x = x tr + dx, y = y tr + dy, scale = scale tr\<rparr>)
      \<and> (\<forall>i \<in> set images. \<forall>j \<in> set images. \<exists>ti tj ti' tj'.
            t (image_id i) = Some ti \<and> t (image_id j) = Some tj
            \<and> t' (image_id i) = Some ti' \<and> t' (image_id j) = Some tj'
            \<and> x ti' - x tj' = x ti - x tj \<and> y ti' - y tj' = y ti - y tj)
      \<and> (\<forall>k. k \<notin> image_id ` set images \<longrightarrow> t' k = t k)"
proof -
  let ?t' = "\<lambda>k. if k \<in> image_id ` set images
              then map_option (\<lambda>tr. tr\<lparr>x := x tr + dx, y := y tr + dy\<rparr>) (t k)
              else t k"
  have ok: "handleMouseMove images True True (Some a) dx dy t = Ok ?t'"
    using act by (simp add: handleMouseMove_def falsy_def panAll_Ok [OF dist entries])
  have each: "\<exists>tr. t (image_id i) = Some tr
            \<and> ?t' (image_id i) = Some \<lparr>x = x tr + dx, y = y tr + dy, scale = scale tr\<rparr>"
    if "i \<in> set images" for i
  proof -
    from that entries obtain tr where "t (image_id i) = Some tr" by auto
    with that show ?thesis by simp
  qed
  have pair: "\<exists>ti tj ti' tj'.
            t (image_id i) = Some ti \<and> t (image_id j) = Some tj
            \<and> ?t' (image_id i) = Some ti' \<and> ?t' (image_id j) = Some tj'
            \<and> x ti' - x tj' = x ti - x tj \<and> y ti' - y tj' = y ti - y tj"
    if "i \<in> set images" "j \<in> set images" for i j
  proof -
    from each [OF that(1)] obtain ti where
      i: "t (image_id i) = Some ti" "?t' (image_id i) = Some \<lparr>x = x ti + dx, y = y ti + dy, scale = scale ti\<rparr>"
      by blast
    from each [OF that(2)] obtain tj where
      j: "t (image_id j) = Some tj" "?t' (image_id j) = Some \<lparr>x = x tj + dx, y = y tj + dy, scale = scale tj\<rparr>"
      by blast
    have "x \<lparr>x = x ti + dx, y = y ti + dy, scale = scale ti\<rparr> - x \<lparr>x = x tj + dx, y = y tj + dy, scale = scale tj\<rparr> = x ti - x tj"
      and "y \<lparr>x = x ti + dx, y = y ti + dy, scale = scale ti\<rparr> - y \<lparr>x = x tj + dx, y = y tj + dy, scale = scale tj\<rparr> = y ti - y tj"
      by simp_all
    with i j show ?thesis by blast
  qed
  from ok each pair show ?thesis by simp
qed

theorem synced_pan_step_witness:
  "(let images = [img ''a'', img ''b''];
        t = [''a'' \<mapsto> \<lparr>x = 5, y = -3, scale = 1\<rparr>, ''b'' \<mapsto> \<lparr>x = 0, y = 0, scale = 2\<rparr>]
    in distinct (map image_id images) \<and> image_id ` set images \<subseteq> dom t \<and> ''b'' \<noteq> []
       \<and> tableOf (handleMouseMove images True True (Some ''b'') 2 7 t) ''a'' = Some \<lparr>x = 7, y = 4, scale = 1\<rparr>
       \<and> tableOf (handleMouseMove images True True (Some ''b'') 2 7 t) ''b'' = Some \<lparr>x = 2, y = 7, scale = 2\<rparr>)"
proof -
  let ?I = "[img ''a'', img ''b'']"
  let ?T = "[''a'' \<mapsto> \<lparr>x = 5, y = -3, scale = 1\<rparr>, ''b'' \<mapsto> \<lparr>x = 0, y = 0, scale = (2::real)\<rparr>]"
  have h1: "distinct (map image_id ?I)" by simp
  have h2: "image_id ` set ?I \<subseteq> dom ?T" by simp
  have h3: "''b'' \<noteq> []" by simp
  from synced_pan_step [OF h1 h2 h3, of 2 7]
  obtain t' where s: "handleMouseMove ?I True True (Some ''b'') 2 7 ?T = Ok t'"
    and v: "\<forall>i \<in> set ?I. \<exists>tr. ?T (image_id i) = Some tr
            \<and> t' (image_id i) = Some \<lparr>x = x tr + 2, y = y tr + 7, scale = scale tr\<rparr>"
    by blast
  from v have "t' ''a'' = Some \<lparr>x = 7, y = 4, scale = 1\<rparr>" and "t' ''b'' = Some \<lparr>x = 2, y = 7, scale = 2\<rparr>"
    by simp_all
  with s h1 h2 show ?thesis by (simp add: Let_def)
qed

text \<open>
  C8. With the two tracked images \<open>ia\<close> and \<open>ib\<close> both at scale 1 and synced mode, a
  wheel event with \<open>deltaY = -10\<close> on the first returns normally and leaves both at scale
  \<open>max 0.1 (1.0 + (-10 * -0.001)) = 1.01\<close>.
\<close>

theorem synced_wheel_scenario:
  assumes "image_id ia = a" and "image_id ib = b" and "a \<noteq> []"
    and "t a = Some ta" and "t b = Some tb" and "scale ta = 1" and "scale tb = 1"
  shows "\<exists>t' ta' tb'. handleWheel [ia, ib] True (-10) a t = Ok t'
      \<and> t' a = Some ta' \<and> t' b = Some tb'
      \<and> scale ta' = 1.01 \<and> scale tb' = 1.01
      \<and> max 0.1 (1.0 + (-10 * - ZOOM_SPEED)) = 1.01"
  using assms
  by (simp add: handleWheel_def applyTransformUpdate_def referenceId_def falsy_def
      wheelUpdater_def ZOOM_SPEED_def)

theorem synced_wheel_scenario_witness:
  "(let t = [''a'' \<mapsto> \<lparr>x = 0, y = 0, scale = 1\<rparr>, ''b'' \<mapsto> \<lparr>x = 0, y = 0, scale = 1\<rparr>]
    in ''a'' \<noteq> [] \<and> t ''a'' = Some \<lparr>x = 0, y = 0, scale = 1\<rparr> \<and> t ''b'' = Some \<lparr>x = 0, y = 0, scale = 1\<rparr>
       \<and> tableOf (handleWheel [img ''a'', img ''b''] True (-10) ''a'' t) ''a'' = Some \<lparr>x = 0, y = 0, scale = 1.01\<rparr>
       \<and> tableOf (handleWheel [img ''a'', img ''b''] True (-10) ''a'' t) ''b'' = Some \<lparr>x = 0, y = 0, scale = 1.01\<rparr>)"
  using synced_wheel_scenario [of "img ''a''" "''a''" "img ''b''" "''b''"
      "[''a'' \<mapsto> \<lparr>x = 0, y = 0, scale = 1\<rparr>, ''b'' \<mapsto> \<lparr>x = 0, y = 0, scale = 1\<rparr>]"
      "\<lparr>x = 0, y = 0, scale = 1\<rparr>" "\<lparr>x = 0, y = 0, scale = 1\<rparr>"]
  by (simp add: Let_def handleWheel_def applyTransformUpdate_def referenceId_def falsy_def
      wheelUpdater_def ZOOM_SPEED_def)

section \<open>Scale bounds\<close>

lemma wheelUpdater_range: "0.1 \<le> scale (wheelUpdater d p) \<and> scale (wheelUpdater d p) \<le> 20"
  by (simp add: wheelUpdater_def Let_def)

lemma zoomBtnUpdater_range: "0.1 \<le> scale (zoomBtnUpdater dir p) \<and> scale (zoomBtnUpdater dir p) \<le> 20"
  by (simp add: zoomBtnUpdater_def Let_def)

lemma scalesInRange_assignAll:
  "scalesInRange t \<Longrightarrow> 0.1 \<le> scale s \<Longrightarrow> scale s \<le> 20 \<Longrightarrow> scalesInRange (assignAll images s t)"
  by (auto simp: scalesInRange_def assignAll_apply split: if_splits)

lemma scalesInRange_upd:
  "scalesInRange t \<Longrightarrow> 0.1 \<le> scale s \<Longrightarrow> scale s \<le> 20 \<Longrightarrow> scalesInRange (t(k \<mapsto> s))"
  by (auto simp: scalesInRange_def)

lemma scalesInRange_applyTransformUpdate:
  assumes "scalesInRange t" and "\<And>p. 0.1 \<le> scale (u p) \<and> scale (u p) \<le> 20"
  shows "scalesInRange (tableOf (applyTransformUpdate images s tgt u t))"
  using assms
  by (auto simp: applyTransformUpdate_def scalesInRange_assignAll scalesInRange_upd
      split: option.splits)

lemma scalesInRange_panAll:
  "scalesInRange t \<Longrightarrow> scalesInRange (tableOf (panAll images dx dy t))"
proof (induction images arbitrary: t)
  case Nil
  then show ?case by simp
next
  case (Cons img imgs)
  show ?case
  proof (cases "t (image_id img)")
    case None
    with Cons.prems show ?thesis by simp
  next
    case (Some tr)
    with Cons.prems have "0.1 \<le> scale tr \<and> scale tr \<le> 20" by (simp add: scalesInRange_def)
    with Cons.prems have "scalesInRange (t(image_id img \<mapsto> tr\<lparr>x := x tr + dx, y := y tr + dy\<rparr>))"
      by (simp add: scalesInRange_upd)
    then have "scalesInRange (tableOf (panAll imgs dx dy
        (t(image_id img \<mapsto> tr\<lparr>x := x tr + dx, y := y tr + dy\<rparr>))))"
      by (rule Cons.IH)
    moreover have "panAll (img # imgs) dx dy t =
        panAll imgs dx dy (t(image_id img \<mapsto> tr\<lparr>x := x tr + dx, y := y tr + dy\<rparr>))"
      using Some by simp
    ultimately show ?thesis by (simp only:)
  qed
qed

lemma scalesInRange_step:
  assumes "scalesInRange t"
  shows "scalesInRange (tableOf (step images s ev t))"
proof (cases ev)
  case (Wheel tid deltaY)
  have "scalesInRange (tableOf (applyTransformUpdate images s (Some tid) (wheelUpdater deltaY) t))"
    by (rule scalesInRange_applyTransformUpdate [OF assms wheelUpdater_range])
  with Wheel show ?thesis by (simp add: handleWheel_def)
next
  case (ZoomBtn tid dir)
  have "scalesInRange (tableOf (applyTransformUpdate images s tid (zoomBtnUpdater dir) t))"
    by (rule scalesInRange_applyTransformUpdate [OF assms zoomBtnUpdater_range])
  with ZoomBtn show ?thesis by (simp add: handleZoomBtn_def)
next
  case (Pan tid dx dy)
  have a: "scalesInRange (tableOf (panAll images dx dy t))"
    using assms by (rule scalesInRange_panAll)
  have b: "scalesInRange (t(tid \<mapsto> tr\<lparr>x := x tr + dx, y := y tr + dy\<rparr>))"
    if "t tid = Some tr" for tr
    using that assms by (auto simp: scalesInRange_def)
  from Pan a b assms show ?thesis
    by (simp add: handleMouseMove_def split: option.splits)
next
  case (Reset tid)
  with assms show ?thesis
    by (auto simp: handleReset_def Let_def scalesInRange_assignAll scalesInRange_upd split: option.splits)
qed

lemma keeps_key_panAll:
  "t k = Some tr \<Longrightarrow> \<exists>tr'. tableOf (panAll images dx dy t) k = Some tr'"
proof (induction images arbitrary: t tr)
  case Nil
  then show ?case by simp
next
  case (Cons img imgs)
  show ?case
  proof (cases "t (image_id img)")
    case None
    with Cons.prems show ?thesis by simp
  next
    case (Some tr1)
    let ?t1 = "t(image_id img \<mapsto> tr1\<lparr>x := x tr1 + dx, y := y tr1 + dy\<rparr>)"
    from Cons.prems obtain tr2 where "?t1 k = Some tr2" by (cases "k = image_id img") auto
    then have "\<exists>tr'. tableOf (panAll imgs dx dy ?t1) k = Some tr'" by (rule Cons.IH)
    moreover have "panAll (img # imgs) dx dy t = panAll imgs dx dy ?t1" using Some by simp
    ultimately show ?thesis by (simp only:)
  qed
qed

lemma keeps_key_step:
  assumes "t k = Some tr"
  shows "\<exists>tr'. tableOf (step images s ev t) k = Some tr'"
proof (cases ev)
  case (Wheel tid deltaY)
  with assms show ?thesis
    by (auto simp: handleWheel_def applyTransformUpdate_def assignAll_apply split: option.splits)
next
  case (ZoomBtn tid dir)
  with assms show ?thesis
    by (auto simp: handleZoomBtn_def applyTransformUpdate_def assignAll_apply split: option.splits)
next
  case (Pan tid dx dy)
  from keeps_key_panAll [where t = t and k = k, OF assms] obtain tr' where "tableOf (panAll images dx dy t) k = Some tr'"
    by blast
  with Pan assms show ?thesis
    by (auto simp: handleMouseMove_def split: option.splits)
next
  case (Reset tid)
  with assms show ?thesis
    by (auto simp: handleReset_def Let_def assignAll_apply split: option.splits)
qed

lemma scalesInRange_run:
  "scalesInRange t \<Longrightarrow> scalesInRange (run images evs t)"
  by (induction evs arbitrary: t) (auto simp: scalesInRange_step)

lemma keeps_key_run:
  "t k = Some tr \<Longrightarrow> \<exists>tr'. run images evs t k = Some tr'"
proof (induction evs arbitrary: t tr)
  case Nil
  then show ?case by simp
next
  case (Cons e evs)
  obtain s ev where e: "e = (s, ev)" by (cases e)
  from keeps_key_step [where t = t and k = k, OF Cons.prems] obtain tr1 where "tableOf (step images s ev t) k = Some tr1"
    by blast
  then have "\<exists>tr'. run images evs (tableOf (step images s ev t)) k = Some tr'"
    by (rule Cons.IH)
  with e show ?case by simp
qed

text \<open>
  C4. Start from a table in which every scale is 1. After any finite sequence of
  operations, each in either sync mode (wheel zooms with arbitrary deltas and button
  zooms in particular), every key that had an entry still has one, and its scale lies in
  \<open>[0.1, 20]\<close>.
\<close>

theorem zoom_scale_bounds:
  assumes start: "\<forall>k tr. t k = Some tr \<longrightarrow> scale tr = 1" and entry: "t k = Some tr0"
  shows "\<exists>tr. run images evs t k = Some tr \<and> 0.1 \<le> scale tr \<and> scale tr \<le> 20"
proof -
  from start have "scalesInRange t" by (simp add: scalesInRange_def)
  then have "scalesInRange (run images evs t)" by (rule scalesInRange_run)
  moreover from keeps_key_run [where t = t and k = k, OF entry] obtain tr where "run images evs t k = Some tr" by blast
  ultimately show ?thesis by (auto simp: scalesInRange_def)
qed

theorem zoom_scale_bounds_witness:
  "(let images = [img ''a'', img ''b''];
        t = [''a'' \<mapsto> \<lparr>x = 0, y = 0, scale = 1\<rparr>, ''b'' \<mapsto> \<lparr>x = 0, y = 0, scale = 1\<rparr>];
        evs = [(True, Wheel ''a'' (-100000)), (False, ZoomBtn None In), (False, ZoomBtn (Some ''b'') Out)]
    in t ''a'' = Some \<lparr>x = 0, y = 0, scale = 1\<rparr>
       \<and> run images evs t ''a'' = Some \<lparr>x = 0, y = 0, scale = 20\<rparr>
       \<and> run images evs t ''b'' = Some \<lparr>x = 0, y = 0, scale = 16\<rparr>
       \<and> (\<exists>tr. run images evs t ''b'' = Some tr \<and> 0.1 \<le> scale tr \<and> scale tr \<le> 20))"
proof -
  let ?I = "[img ''a'', img ''b'']"
  let ?T = "[''a'' \<mapsto> \<lparr>x = 0, y = 0, scale = 1\<rparr>, ''b'' \<mapsto> \<lparr>x = 0, y = 0, scale = (1::real)\<rparr>]"
  let ?E = "[(True, Wheel ''a'' (-100000)), (False, ZoomBtn None In), (False, ZoomBtn (Some ''b'') Out)]"
  have h1: "\<forall>k tr. ?T k = Some tr \<longrightarrow> scale tr = 1" by simp
  have h2: "?T ''b'' = Some \<lparr>x = 0, y = 0, scale = 1\<rparr>" by simp
  have b: "\<exists>tr. run ?I ?E ?T ''b'' = Some tr \<and> 0.1 \<le> scale tr \<and> scale tr \<le> 20"
    by (rule zoom_scale_bounds [OF h1 h2])
  have "run ?I ?E ?T ''a'' = Some \<lparr>x = 0, y = 0, scale = 20\<rparr>"
    and "run ?I ?E ?T ''b'' = Some \<lparr>x = 0, y = 0, scale = 16\<rparr>"
    by (simp_all add: handleWheel_def handleZoomBtn_def applyTransformUpdate_def referenceId_def
        firstId_def falsy_def wheelUpdater_def zoomBtnUpdater_def ZOOM_SPEED_def)
  with b show ?thesis by (simp add: Let_def)
qed

section \<open>Splitting a wheel delta\<close>

subsection \<open>Rounding to a double\<close>

lemma roundHalfEven_error: "\<bar>of_int (roundHalfEven v) - v\<bar> \<le> 1 / 2"
proof -
  have "of_int \<lfloor>v\<rfloor> \<le> v" and "v < of_int \<lfloor>v\<rfloor> + 1" by linarith+
  then show ?thesis by (auto simp: roundHalfEven_def Let_def)
qed

lemma pow2_pos: "0 < pow2 e"
  by (simp add: pow2_def)

lemma pow2_powr: "pow2 e = 2 powr (of_int e)"
proof (cases "0 \<le> e")
  case True
  then have "2 powr (of_int e) = (2::real) powr (of_nat (nat e))" by simp
  also have "\<dots> = 2 ^ nat e" by (simp add: powr_realpow)
  finally show ?thesis using True by (simp add: pow2_def)
next
  case False
  then have "2 powr (of_int e) = (2::real) powr (- of_nat (nat (- e)))" by simp
  also have "\<dots> = 1 / 2 ^ nat (- e)" by (simp add: powr_minus_divide powr_realpow)
  finally show ?thesis using False by (simp add: pow2_def)
qed

lemma pow2_mono: "a \<le> b \<Longrightarrow> pow2 a \<le> pow2 b"
  by (simp add: pow2_powr)

lemma pow2_half: "pow2 e / 2 = pow2 (e - 1)"
  by (simp add: pow2_powr powr_diff)

lemma pow2_diff: "pow2 (a - int n) = pow2 a / 2 ^ n"
  by (simp add: pow2_powr powr_diff powr_realpow)

text \<open>\<open>binExponent\<close> is the binary exponent.\<close>

lemma binExponent_bounds:
  assumes "v \<noteq> 0"
  shows "pow2 (binExponent v) \<le> \<bar>v\<bar> \<and> \<bar>v\<bar> < pow2 (binExponent v + 1)"
proof (cases "1 \<le> \<bar>v\<bar>")
  case True
  let ?m = "\<lfloor>\<bar>v\<bar>\<rfloor>"
  from True have m: "0 < ?m" by linarith
  then have b1: "1 \<le> bitlen ?m" by (simp add: bitlen_alt_def)
  have e: "binExponent v = bitlen ?m - 1" using True by (simp add: binExponent_def)
  from bitlen_bounds [OF m] have lo: "2 ^ nat (bitlen ?m - 1) \<le> ?m" and hi: "?m < 2 ^ nat (bitlen ?m)"
    by simp_all
  from lo have "real_of_int (2 ^ nat (bitlen ?m - 1)) \<le> real_of_int ?m" by (simp only: of_int_le_iff)
  also have "\<dots> \<le> \<bar>v\<bar>" by (rule of_int_floor_le)
  finally have 1: "pow2 (binExponent v) \<le> \<bar>v\<bar>" using b1 by (simp add: e pow2_def)
  from hi have "?m + 1 \<le> 2 ^ nat (bitlen ?m)" by simp
  then have "real_of_int (?m + 1) \<le> real_of_int (2 ^ nat (bitlen ?m))" by (simp only: of_int_le_iff)
  moreover have "\<bar>v\<bar> < real_of_int (?m + 1)" by linarith
  ultimately have "\<bar>v\<bar> < real_of_int (2 ^ nat (bitlen ?m))" by linarith
  then have 2: "\<bar>v\<bar> < pow2 (binExponent v + 1)" using b1 by (simp add: e pow2_def)
  from 1 2 show ?thesis ..
next
  case False
  define y where "y = 1 / \<bar>v\<bar>"
  define m where "m = \<lceil>y\<rceil> - 1"
  define n where "n = nat (bitlen m - 1)"
  from False assms have v: "0 < \<bar>v\<bar>" "\<bar>v\<bar> < 1" by simp_all
  then have y: "1 < y" by (simp add: y_def)
  then have m: "0 < m" unfolding m_def by linarith
  then have b1: "1 \<le> bitlen m" by (simp add: bitlen_alt_def)
  then have bn: "bitlen m = int n + 1" by (simp add: n_def)
  have e: "binExponent v = - (int n + 1)"
    using False bn by (simp add: binExponent_def y_def m_def)
  from bitlen_bounds [OF m] have lo: "2 ^ n \<le> m" and hi: "m < 2 ^ Suc n"
    by (simp_all add: bn nat_add_distrib)
  have my: "real_of_int m < y" "y \<le> real_of_int m + 1" unfolding m_def by linarith+
  from hi have "m + 1 \<le> 2 ^ Suc n" by simp
  then have "real_of_int (m + 1) \<le> real_of_int (2 ^ Suc n)" by (simp only: of_int_le_iff)
  then have "real_of_int m + 1 \<le> 2 ^ Suc n" by simp
  with my(2) have "y \<le> 2 ^ Suc n" by linarith
  then have "1 / 2 ^ Suc n \<le> \<bar>v\<bar>" using v(1) by (simp add: y_def field_simps)
  moreover have "nat (1 + int n) = Suc n" by simp
  ultimately have 1: "pow2 (binExponent v) \<le> \<bar>v\<bar>" by (simp add: e pow2_def)
  from lo have "real_of_int (2 ^ n) \<le> real_of_int m" by (simp only: of_int_le_iff)
  then have "2 ^ n \<le> real_of_int m" by simp
  with my(1) have "2 ^ n < y" by linarith
  then have "\<bar>v\<bar> < 1 / 2 ^ n" using v(1) by (simp add: y_def field_simps)
  then have 2: "\<bar>v\<bar> < pow2 (binExponent v + 1)" by (cases n) (simp_all add: e pow2_def nat_add_distrib)
  from 1 2 show ?thesis ..
qed

text \<open>The result is a double: at most 53 bits times a power of two, not below \<open>2^-1074\<close>.\<close>

lemma roundToDouble_is_double:
  "\<exists>m q. roundToDouble v = of_int m * pow2 q \<and> \<bar>m\<bar> \<le> 2 ^ 53 \<and> - 1074 \<le> q"
proof -
  define q where "q = max (binExponent v) (- 1022) - 52"
  define m where "m = roundHalfEven (v / pow2 q)"
  have r: "roundToDouble v = of_int m * pow2 q"
    by (simp add: roundToDouble_def Let_def q_def m_def)
  have q: "- 1074 \<le> q" by (simp add: q_def)
  have "\<bar>v / pow2 q\<bar> < 2 ^ 53"
  proof (cases "v = 0")
    case True
    then show ?thesis by simp
  next
    case False
    from binExponent_bounds [OF False] have "\<bar>v\<bar> < pow2 (binExponent v + 1)" ..
    also have "\<dots> \<le> pow2 (q + 53)" by (intro pow2_mono) (simp add: q_def)
    also have "\<dots> = pow2 q * 2 ^ 53"
      using pow2_diff [of "q + 53" 53] pow2_pos [of q] by (simp add: field_simps)
    finally show ?thesis using pow2_pos [of q] by (simp add: abs_divide field_simps)
  qed
  with roundHalfEven_error [of "v / pow2 q"]
  have "\<bar>real_of_int m\<bar> < 2 ^ 53 + 1" unfolding m_def by linarith
  then have "\<bar>real_of_int m\<bar> < real_of_int (2 ^ 53 + 1)" by simp
  then have "\<bar>m\<bar> < 2 ^ 53 + 1" by (metis of_int_abs of_int_less_iff)
  then have "\<bar>m\<bar> \<le> 2 ^ 53" by simp
  with r q show ?thesis by blast
qed

text \<open>The rounding error is at most half the spacing of doubles at the rounded number.\<close>

lemma roundToDouble_error:
  "\<bar>roundToDouble v - v\<bar> \<le> pow2 (max (binExponent v) (- 1022) - 53)"
proof -
  define q where "q = max (binExponent v) (- 1022) - 52"
  have pos: "0 < pow2 q" by (rule pow2_pos)
  have "roundToDouble v - v = (of_int (roundHalfEven (v / pow2 q)) - v / pow2 q) * pow2 q"
    using pos by (simp add: roundToDouble_def Let_def q_def [symmetric] algebra_simps)
  then have "\<bar>roundToDouble v - v\<bar> = \<bar>of_int (roundHalfEven (v / pow2 q)) - v / pow2 q\<bar> * pow2 q"
    using pos by (simp add: abs_mult)
  also have "\<dots> \<le> 1 / 2 * pow2 q"
    using roundHalfEven_error [of "v / pow2 q"] pos by (intro mult_right_mono) auto
  also have "\<dots> = pow2 (q - 1)" using pow2_half [of q] by simp
  also have "q - 1 = max (binExponent v) (- 1022) - 53" by (simp add: q_def)
  finally show ?thesis .
qed

lemma binExponent_upper:
  assumes "\<bar>v\<bar> < 2 ^ k" and "1 \<le> k"
  shows "binExponent v \<le> int k - 1"
proof (cases "1 \<le> \<bar>v\<bar>")
  case True
  have "of_int \<lfloor>\<bar>v\<bar>\<rfloor> \<le> \<bar>v\<bar>" by simp
  with assms(1) have "real_of_int \<lfloor>\<bar>v\<bar>\<rfloor> < 2 ^ k" by linarith
  then have "\<lfloor>\<bar>v\<bar>\<rfloor> < 2 ^ k" by (metis of_int_less_iff of_int_numeral of_int_power)
  then have "bitlen \<lfloor>\<bar>v\<bar>\<rfloor> \<le> int k" by (simp add: bitlen_le_iff_power)
  with True show ?thesis by (simp add: binExponent_def)
next
  case False
  have "0 \<le> bitlen (\<lceil>1 / \<bar>v\<bar>\<rceil> - 1)" by (rule bitlen_nonneg)
  with False assms(2) show ?thesis by (simp add: binExponent_def)
qed

lemma roundToDouble_error_below:
  assumes "\<bar>v\<bar> < 2 ^ k" and "1 \<le> k"
  shows "\<bar>roundToDouble v - v\<bar> \<le> pow2 (int k - 54)"
proof -
  have "max (binExponent v) (- 1022) - 53 \<le> int k - 54"
    using binExponent_upper [OF assms] assms(2) by simp
  then have "pow2 (max (binExponent v) (- 1022) - 53) \<le> pow2 (int k - 54)" by (rule pow2_mono)
  with roundToDouble_error [of v] show ?thesis by linarith
qed

lemma roundToDouble_error_relative:
  assumes "1 \<le> \<bar>v\<bar>"
  shows "\<bar>roundToDouble v - v\<bar> \<le> \<bar>v\<bar> / 2 ^ 53"
proof -
  let ?m = "\<lfloor>\<bar>v\<bar>\<rfloor>"
  from assms have m: "0 < ?m" by linarith
  then have b1: "1 \<le> bitlen ?m" by (simp add: bitlen_alt_def)
  have e: "binExponent v = bitlen ?m - 1" using assms by (simp add: binExponent_def)
  from bitlen_bounds [OF m] have "2 ^ nat (bitlen ?m - 1) \<le> ?m" by simp
  then have "real_of_int (2 ^ nat (bitlen ?m - 1)) \<le> real_of_int ?m" by (simp only: of_int_le_iff)
  moreover have "real_of_int ?m \<le> \<bar>v\<bar>" by (rule of_int_floor_le)
  ultimately have "real_of_int (2 ^ nat (bitlen ?m - 1)) \<le> \<bar>v\<bar>" by (rule order_trans)
  moreover have "real_of_int (2 ^ nat (bitlen ?m - 1)) = 2 ^ nat (bitlen ?m - 1)" by simp
  ultimately have "(2::real) ^ nat (bitlen ?m - 1) \<le> \<bar>v\<bar>" by (simp only:)
  with b1 have le: "pow2 (binExponent v) \<le> \<bar>v\<bar>" by (simp add: e pow2_def)
  have "max (binExponent v) (- 1022) - 53 = binExponent v - int 53" using b1 e by simp
  then have "pow2 (max (binExponent v) (- 1022) - 53) = pow2 (binExponent v) / 2 ^ 53"
    by (simp only: pow2_diff)
  also have "\<dots> \<le> \<bar>v\<bar> / 2 ^ 53" using le by (simp add: divide_right_mono)
  finally show ?thesis using roundToDouble_error [of v] by linarith
qed

lemma ZOOM_SPEED_double: "roundToDouble ZOOM_SPEED = 1152921504606847 / 1152921504606846976"
  by code_simp

lemma minScale_double: "roundToDouble 0.1 = 3602879701896397 / 36028797018963968"
  by code_simp

lemma scale_wheelUpdaterDouble:
  "scale (wheelUpdaterDouble d p) = wheelScaleDouble d (scale p)"
  by (simp add: wheelUpdaterDouble_def wheelScaleDouble_def Let_def)

lemma wheelScaleDouble_range: "0 \<le> wheelScaleDouble d s \<and> wheelScaleDouble d s \<le> 20"
  by (simp add: wheelScaleDouble_def minScale_double)

lemma wheelScaleExact_range:
  "roundToDouble 0.1 \<le> wheelScaleExact d s \<and> wheelScaleExact d s \<le> 20"
  by (simp add: wheelScaleExact_def minScale_double)

lemma clamp_lipschitz:
  fixes l h u v :: real
  shows "\<bar>min (max l u) h - min (max l v) h\<bar> \<le> \<bar>u - v\<bar>"
  by (auto simp: min_def max_def)

lemma pow2_m48: "pow2 (- 48) = 1 / 2 ^ 48"
  by (simp add: pow2_def)

text \<open>One event: the rounded scale is within \<open>2^-47\<close> of the exact one.\<close>

lemma step_error:
  assumes "0 \<le> s" and "s \<le> 20"
  shows "\<bar>wheelScaleDouble d s - wheelScaleExact d s\<bar> \<le> 1 / 2 ^ 47"
proof -
  let ?p = "d * - roundToDouble ZOOM_SPEED"
  let ?L = "roundToDouble 0.1"
  have L: "0 < ?L" "?L \<le> 20" by (simp_all add: minScale_double)
  consider "\<bar>?p\<bar> \<le> 41" | "41 < ?p" | "?p < - 41" by linarith
  then show ?thesis
  proof cases
    case 1
    then have "\<bar>?p\<bar> < 2 ^ 6" by simp
    from roundToDouble_error_below [OF this] have e1: "\<bar>roundToDouble ?p - ?p\<bar> \<le> 1 / 2 ^ 48"
      by (simp add: pow2_m48)
    have "\<bar>s + roundToDouble ?p\<bar> \<le> \<bar>s\<bar> + \<bar>?p\<bar> + \<bar>roundToDouble ?p - ?p\<bar>" by linarith
    also have "\<dots> \<le> 20 + 41 + 1 / 2 ^ 48" using assms 1 e1 by linarith
    also have "\<dots> < 2 ^ 6" by simp
    finally have "\<bar>s + roundToDouble ?p\<bar> < 2 ^ 6" .
    from roundToDouble_error_below [OF this]
    have e2: "\<bar>roundToDouble (s + roundToDouble ?p) - (s + roundToDouble ?p)\<bar> \<le> 1 / 2 ^ 48"
      by (simp add: pow2_m48)
    have "\<bar>wheelScaleDouble d s - wheelScaleExact d s\<bar>
        \<le> \<bar>roundToDouble (s + roundToDouble ?p) - (s + ?p)\<bar>"
      unfolding wheelScaleDouble_def wheelScaleExact_def by (rule clamp_lipschitz)
    also have "\<dots> \<le> \<bar>roundToDouble (s + roundToDouble ?p) - (s + roundToDouble ?p)\<bar>
        + \<bar>roundToDouble ?p - ?p\<bar>" by linarith
    also have "\<dots> \<le> 1 / 2 ^ 48 + 1 / 2 ^ 48" using e1 e2 by linarith
    also have "\<dots> = 1 / 2 ^ 47" by simp
    finally show ?thesis .
  next
    case 2
    define p where "p = ?p"
    define v where "v = s + roundToDouble p"
    from 2 have p: "41 < p" by (simp only: p_def)
    then have "1 \<le> \<bar>p\<bar>" by linarith
    from roundToDouble_error_relative [OF this] p
    have "p - p / 2 ^ 53 \<le> roundToDouble p" by linarith
    moreover have "p / 2 ^ 53 \<le> p / 82" using p by (intro divide_left_mono) simp_all
    ultimately have "40 < roundToDouble p" using p by linarith
    with assms have v: "40 < v" by (simp add: v_def)
    then have "1 \<le> \<bar>v\<bar>" by linarith
    from roundToDouble_error_relative [OF this] v
    have "v - v / 2 ^ 53 \<le> roundToDouble v" by linarith
    moreover have "v / 2 ^ 53 \<le> v / 2" using v by (intro divide_left_mono) simp_all
    ultimately have "20 \<le> roundToDouble v" using v by linarith
    then have "wheelScaleDouble d s = 20"
      using L by (simp add: wheelScaleDouble_def v_def p_def)
    moreover have "20 \<le> s + ?p" using 2 assms by linarith
    then have "wheelScaleExact d s = 20" using L by (simp add: wheelScaleExact_def)
    ultimately show ?thesis by simp
  next
    case 3
    define p where "p = ?p"
    define v where "v = s + roundToDouble p"
    from 3 have p: "p < - 41" by (simp only: p_def)
    then have "1 \<le> \<bar>p\<bar>" by linarith
    from roundToDouble_error_relative [OF this] p
    have "roundToDouble p \<le> p - p / 2 ^ 53" by linarith
    moreover have "p / 82 \<le> p / 2 ^ 53" using p by (simp add: field_simps)
    ultimately have "roundToDouble p < - 40" using p by linarith
    with assms have v: "v < - 20" by (simp add: v_def)
    then have "1 \<le> \<bar>v\<bar>" by linarith
    from roundToDouble_error_relative [OF this] v
    have "roundToDouble v \<le> v - v / 2 ^ 53" by linarith
    moreover have "v / 2 \<le> v / 2 ^ 53" using v by (simp add: field_simps)
    ultimately have "roundToDouble v \<le> 0" using v by linarith
    then have "wheelScaleDouble d s = ?L"
      using L by (simp add: wheelScaleDouble_def v_def p_def)
    moreover have "s + ?p \<le> 0" using 3 assms by linarith
    then have "wheelScaleExact d s = ?L" using L by (simp add: wheelScaleExact_def)
    ultimately show ?thesis by simp
  qed
qed

lemma exact_lipschitz: "\<bar>wheelScaleExact d s - wheelScaleExact d s'\<bar> \<le> \<bar>s - s'\<bar>"
proof -
  have "\<bar>wheelScaleExact d s - wheelScaleExact d s'\<bar>
      \<le> \<bar>(s + d * - roundToDouble ZOOM_SPEED) - (s' + d * - roundToDouble ZOOM_SPEED)\<bar>"
    unfolding wheelScaleExact_def by (rule clamp_lipschitz)
  then show ?thesis by simp
qed

text \<open>A sequence of events: the errors of the single events add up.\<close>

lemma fold_error:
  assumes "0 \<le> s" and "s \<le> 20"
  shows "\<bar>foldl (\<lambda>a d. wheelScaleDouble d a) s ds - foldl (\<lambda>a d. wheelScaleExact d a) s' ds\<bar>
      \<le> \<bar>s - s'\<bar> + real (length ds) / 2 ^ 47"
  using assms
proof (induction ds arbitrary: s s')
  case Nil
  then show ?case by simp
next
  case (Cons d ds)
  let ?s1 = "wheelScaleDouble d s" and ?s1' = "wheelScaleExact d s'"
  have r: "0 \<le> ?s1" "?s1 \<le> 20" using wheelScaleDouble_range [of d s] by simp_all
  have "\<bar>?s1 - ?s1'\<bar> \<le> \<bar>?s1 - wheelScaleExact d s\<bar> + \<bar>wheelScaleExact d s - ?s1'\<bar>"
    by linarith
  also have "\<dots> \<le> 1 / 2 ^ 47 + \<bar>s - s'\<bar>"
    using step_error [OF Cons.prems(1,2), of d] exact_lipschitz [of d s s'] by linarith
  finally have one: "\<bar>?s1 - ?s1'\<bar> \<le> 1 / 2 ^ 47 + \<bar>s - s'\<bar>" .
  have "\<bar>foldl (\<lambda>a d. wheelScaleDouble d a) ?s1 ds - foldl (\<lambda>a d. wheelScaleExact d a) ?s1' ds\<bar>
      \<le> \<bar>?s1 - ?s1'\<bar> + real (length ds) / 2 ^ 47"
    by (rule Cons.IH [OF r])
  with one show ?case by (simp add: add_divide_distrib)
qed

subsection \<open>Splitting in exact arithmetic\<close>

lemma clamp_compose_general:
  fixes s a b l h :: real
  assumes "l \<le> s" and "s \<le> h" and "(0 \<le> a \<and> 0 \<le> b) \<or> (a \<le> 0 \<and> b \<le> 0)"
  shows "min (max l (min (max l (s + a)) h + b)) h = min (max l (s + a + b)) h"
  using assms by (auto simp: min_def max_def)


lemma exact_compose:
  assumes "roundToDouble 0.1 \<le> s" and "s \<le> 20"
    and "(0 \<le> d1 \<and> 0 \<le> d2) \<or> (d1 \<le> 0 \<and> d2 \<le> 0)"
  shows "wheelScaleExact d2 (wheelScaleExact d1 s) = wheelScaleExact (d1 + d2) s"
proof -
  let ?C = "roundToDouble ZOOM_SPEED"
  have Cpos: "0 < ?C" by (simp add: ZOOM_SPEED_double)
  have sign: "(0 \<le> d1 * - ?C \<and> 0 \<le> d2 * - ?C) \<or> (d1 * - ?C \<le> 0 \<and> d2 * - ?C \<le> 0)"
    using assms(3) Cpos by (auto simp: mult_le_0_iff zero_le_mult_iff)
  have "(d1 + d2) * - ?C = d1 * - ?C + d2 * - ?C" by (simp add: algebra_simps)
  with clamp_compose_general [OF assms(1,2) sign] show ?thesis
    by (simp only: wheelScaleExact_def add.assoc)
qed

lemma exact_same_direction:
  assumes "roundToDouble 0.1 \<le> s" and "s \<le> 20"
    and "(\<forall>d \<in> set ds. 0 \<le> d) \<or> (\<forall>d \<in> set ds. d \<le> 0)"
  shows "foldl (\<lambda>a d. wheelScaleExact d a) s ds = wheelScaleExact (sum_list ds) s"
  using assms
proof (induction ds arbitrary: s)
  case Nil
  then show ?case by (simp add: wheelScaleExact_def)
next
  case (Cons d ds)
  have r: "roundToDouble 0.1 \<le> wheelScaleExact d s" "wheelScaleExact d s \<le> 20"
    using wheelScaleExact_range [of d s] by simp_all
  have tl: "(\<forall>e \<in> set ds. 0 \<le> e) \<or> (\<forall>e \<in> set ds. e \<le> 0)" using Cons.prems(3) by auto
  have sg: "(0 \<le> d \<and> 0 \<le> sum_list ds) \<or> (d \<le> 0 \<and> sum_list ds \<le> 0)"
    using Cons.prems(3) sum_list_nonneg [of ds] sum_list_nonpos [of ds] by auto
  have "foldl (\<lambda>a d. wheelScaleExact d a) s (d # ds)
      = foldl (\<lambda>a d. wheelScaleExact d a) (wheelScaleExact d s) ds" by simp
  also have "\<dots> = wheelScaleExact (sum_list ds) (wheelScaleExact d s)"
    by (rule Cons.IH [OF r tl])
  also have "\<dots> = wheelScaleExact (d + sum_list ds) s"
    by (rule exact_compose [OF Cons.prems(1,2) sg])
  finally show ?case by simp
qed

lemma exact_in_range:
  assumes "\<forall>k \<le> length ds. roundToDouble 0.1 \<le> s + sum_list (take k ds) * - roundToDouble ZOOM_SPEED
      \<and> s + sum_list (take k ds) * - roundToDouble ZOOM_SPEED \<le> 20"
  shows "foldl (\<lambda>a d. wheelScaleExact d a) s ds = wheelScaleExact (sum_list ds) s"
proof -
  let ?C = "roundToDouble ZOOM_SPEED"
  have "foldl (\<lambda>a d. wheelScaleExact d a) s ds = s + sum_list ds * - ?C"
    using assms
  proof (induction ds arbitrary: s)
    case Nil
    then show ?case by simp
  next
    case (Cons d ds)
    from Cons.prems have "roundToDouble 0.1 \<le> s + sum_list (take 1 (d # ds)) * - ?C
        \<and> s + sum_list (take 1 (d # ds)) * - ?C \<le> 20"
      by (metis One_nat_def Suc_leI length_Cons zero_less_Suc)
    then have s1: "wheelScaleExact d s = s + d * - ?C" by (simp add: wheelScaleExact_def)
    have "\<forall>k \<le> length ds. roundToDouble 0.1 \<le> (s + d * - ?C) + sum_list (take k ds) * - ?C
        \<and> (s + d * - ?C) + sum_list (take k ds) * - ?C \<le> 20"
    proof (intro allI impI)
      fix k assume "k \<le> length ds"
      then have "Suc k \<le> length (d # ds)" by simp
      with Cons.prems have "roundToDouble 0.1 \<le> s + sum_list (take (Suc k) (d # ds)) * - ?C
        \<and> s + sum_list (take (Suc k) (d # ds)) * - ?C \<le> 20" by blast
      then show "roundToDouble 0.1 \<le> (s + d * - ?C) + sum_list (take k ds) * - ?C
        \<and> (s + d * - ?C) + sum_list (take k ds) * - ?C \<le> 20"
        by (simp add: algebra_simps)
    qed
    then have "foldl (\<lambda>a d. wheelScaleExact d a) (s + d * - ?C) ds
        = (s + d * - ?C) + sum_list ds * - ?C"
      by (rule Cons.IH)
    moreover have "foldl (\<lambda>a d. wheelScaleExact d a) s (d # ds)
        = foldl (\<lambda>a d. wheelScaleExact d a) (s + d * - ?C) ds"
      by (simp only: foldl_Cons s1)
    ultimately have "foldl (\<lambda>a d. wheelScaleExact d a) s (d # ds)
        = (s + d * - ?C) + sum_list ds * - ?C" by (simp only:)
    then show ?case by (simp add: algebra_simps)
  qed
  moreover from assms have "roundToDouble 0.1 \<le> s + sum_list (take (length ds) ds) * - ?C
      \<and> s + sum_list (take (length ds) ds) * - ?C \<le> 20" by blast
  then have "wheelScaleExact (sum_list ds) s = s + sum_list ds * - ?C"
    by (simp add: wheelScaleExact_def)
  ultimately show ?thesis by simp
qed

subsection \<open>The target's entry\<close>

lemma handleWheelDouble_target:
  assumes "tid \<in> image_id ` set images" and "tid \<noteq> []" and "t tid = Some p"
  shows "tableOf (handleWheelDouble images isSynced d tid t) tid = Some (wheelUpdaterDouble d p)"
  using assms
  by (cases isSynced)
    (simp_all add: handleWheelDouble_def applyTransformUpdate_def referenceId_def falsy_def
      assignAll_apply)

lemma runWheelDouble_target:
  assumes "tid \<in> image_id ` set images" and "tid \<noteq> []" and "t tid = Some p"
  shows "\<exists>p'. runWheelDouble images isSynced tid ds t tid = Some p'
      \<and> scale p' = foldl (\<lambda>a d. wheelScaleDouble d a) (scale p) ds"
  using assms(3)
proof (induction ds arbitrary: t p)
  case Nil
  then show ?case by simp
next
  case (Cons d ds)
  let ?t1 = "tableOf (handleWheelDouble images isSynced d tid t)"
  have "?t1 tid = Some (wheelUpdaterDouble d p)"
    using assms(1,2) Cons.prems by (rule handleWheelDouble_target)
  then have "\<exists>p'. runWheelDouble images isSynced tid ds ?t1 tid = Some p'
      \<and> scale p' = foldl (\<lambda>a d. wheelScaleDouble d a) (scale (wheelUpdaterDouble d p)) ds"
    by (rule Cons.IH)
  then show ?case by (simp add: scale_wheelUpdaterDouble)
qed

text \<open>
  C3, as stated, fails on the doubles of the code, in two ways. From scale 1, two wheel
  events of \<open>deltaY = -100\<close> end at \<open>1.2000000000000002\<close>, one event of \<open>-200\<close> at
  \<open>1.2\<close>: the sums are rounded event by event. And the deltas \<open>600, 600, -200\<close> end at
  \<open>0.30000000000000004\<close>, while their total \<open>1000\<close> in one event ends at the lower bound
  \<open>0.1\<close>: the second event of the sequence is clamped there.
\<close>

theorem wheel_split_counterexample:
  "runWheelDouble [img ''a''] False ''a'' [-100, -100] [''a'' \<mapsto> \<lparr>x = 0, y = 0, scale = 1\<rparr>] ''a''
     = Some \<lparr>x = 0, y = 0, scale = 1351079888211149 / 1125899906842624\<rparr>
   \<and> tableOf (handleWheelDouble [img ''a''] False (sum_list [-100, -100]) ''a''
        [''a'' \<mapsto> \<lparr>x = 0, y = 0, scale = 1\<rparr>]) ''a''
     = Some \<lparr>x = 0, y = 0, scale = 5404319552844595 / 4503599627370496\<rparr>
   \<and> runWheelDouble [img ''a''] False ''a'' [-100, -100] [''a'' \<mapsto> \<lparr>x = 0, y = 0, scale = 1\<rparr>] ''a''
     \<noteq> tableOf (handleWheelDouble [img ''a''] False (sum_list [-100, -100]) ''a''
        [''a'' \<mapsto> \<lparr>x = 0, y = 0, scale = 1\<rparr>]) ''a''
   \<and> runWheelDouble [img ''a''] False ''a'' [600, 600, -200] [''a'' \<mapsto> \<lparr>x = 0, y = 0, scale = 1\<rparr>] ''a''
     = Some \<lparr>x = 0, y = 0, scale = 1351079888211149 / 4503599627370496\<rparr>
   \<and> tableOf (handleWheelDouble [img ''a''] False (sum_list [600, 600, -200]) ''a''
        [''a'' \<mapsto> \<lparr>x = 0, y = 0, scale = 1\<rparr>]) ''a''
     = Some \<lparr>x = 0, y = 0, scale = 3602879701896397 / 36028797018963968\<rparr>"
  by code_simp

text \<open>
  C3, amended. Take a tracked target with a non-empty identifier whose scale lies between
  the lower bound (the double \<open>0.1\<close>) and 20, and a sequence of \<open>n\<close> wheel deltas that all
  have the same direction, or whose running sums never take the scale out of these
  bounds. Every event adds its whole delta and then clamps once, each arithmetic step
  rounded to a double. The scale after the \<open>n\<close> successive events and the scale after the
  single event with the summed delta are equal up to the accumulated rounding: they
  differ by at most \<open>(n + 1) / 2^47\<close>. They need not be identical.
\<close>

theorem wheel_split_within_rounding:
  assumes tracked: "tid \<in> image_id ` set images" and ne: "tid \<noteq> []"
    and entry: "t tid = Some prev"
    and lo: "roundToDouble 0.1 \<le> scale prev" and hi: "scale prev \<le> 20"
    and cond: "(\<forall>d \<in> set ds. 0 \<le> d) \<or> (\<forall>d \<in> set ds. d \<le> 0)
      \<or> (\<forall>k \<le> length ds.
            roundToDouble 0.1 \<le> scale prev + sum_list (take k ds) * - roundToDouble ZOOM_SPEED
          \<and> scale prev + sum_list (take k ds) * - roundToDouble ZOOM_SPEED \<le> 20)"
  shows "\<exists>a b. runWheelDouble images isSynced tid ds t tid = Some a
      \<and> tableOf (handleWheelDouble images isSynced (sum_list ds) tid t) tid = Some b
      \<and> scale b = min (max (roundToDouble 0.1)
            (roundToDouble (scale prev + roundToDouble (sum_list ds * - roundToDouble ZOOM_SPEED)))) 20
      \<and> \<bar>scale a - scale b\<bar> \<le> real (length ds + 1) / 2 ^ 47"
proof -
  let ?s = "scale prev"
  let ?D = "foldl (\<lambda>a d. wheelScaleDouble d a) ?s ds"
  let ?X = "foldl (\<lambda>a d. wheelScaleExact d a) ?s ds"
  from runWheelDouble_target [where t = t, OF tracked ne entry]
  obtain a where a: "runWheelDouble images isSynced tid ds t tid = Some a" and sa: "scale a = ?D"
    by blast
  let ?b = "wheelUpdaterDouble (sum_list ds) prev"
  have b: "tableOf (handleWheelDouble images isSynced (sum_list ds) tid t) tid = Some ?b"
    using tracked ne entry by (rule handleWheelDouble_target)
  have sb: "scale ?b = wheelScaleDouble (sum_list ds) ?s" by (rule scale_wheelUpdaterDouble)
  have L0: "0 \<le> roundToDouble 0.1" by (simp add: minScale_double)
  with lo have s0: "0 \<le> ?s" by linarith
  have seq: "\<bar>?D - ?X\<bar> \<le> real (length ds) / 2 ^ 47"
    using fold_error [OF s0 hi, of ds ?s] by simp
  have single: "\<bar>wheelScaleDouble (sum_list ds) ?s - wheelScaleExact (sum_list ds) ?s\<bar> \<le> 1 / 2 ^ 47"
    using s0 hi by (rule step_error)
  have exact: "?X = wheelScaleExact (sum_list ds) ?s"
  proof -
    from cond consider
      "(\<forall>d \<in> set ds. 0 \<le> d) \<or> (\<forall>d \<in> set ds. d \<le> 0)"
      | "\<forall>k \<le> length ds.
            roundToDouble 0.1 \<le> ?s + sum_list (take k ds) * - roundToDouble ZOOM_SPEED
          \<and> ?s + sum_list (take k ds) * - roundToDouble ZOOM_SPEED \<le> 20"
      by blast
    then show ?thesis
    proof cases
      case 1
      with lo hi show ?thesis by (rule exact_same_direction)
    next
      case 2
      then show ?thesis by (rule exact_in_range)
    qed
  qed
  have "\<bar>?D - wheelScaleDouble (sum_list ds) ?s\<bar>
      \<le> \<bar>?D - ?X\<bar> + \<bar>wheelScaleDouble (sum_list ds) ?s - wheelScaleExact (sum_list ds) ?s\<bar>"
    unfolding exact by linarith
  also have "\<dots> \<le> real (length ds) / 2 ^ 47 + 1 / 2 ^ 47" using seq single by linarith
  also have "\<dots> = real (length ds + 1) / 2 ^ 47" by (simp add: add_divide_distrib)
  finally have "\<bar>scale a - scale ?b\<bar> \<le> real (length ds + 1) / 2 ^ 47"
    by (simp only: sa sb)
  moreover have "scale ?b = min (max (roundToDouble 0.1)
            (roundToDouble (?s + roundToDouble (sum_list ds * - roundToDouble ZOOM_SPEED)))) 20"
    by (simp only: sb wheelScaleDouble_def)
  ultimately show ?thesis using a b by blast
qed

theorem wheel_split_within_rounding_witness:
  "(let images = [img ''a'', img ''b''];
        t = [''a'' \<mapsto> \<lparr>x = 0, y = 0, scale = 1\<rparr>, ''b'' \<mapsto> \<lparr>x = 4, y = 2, scale = 3\<rparr>];
        ds = [-100, -100]
    in ''a'' \<in> image_id ` set images \<and> ''a'' \<noteq> []
       \<and> t ''a'' = Some \<lparr>x = 0, y = 0, scale = 1\<rparr> \<and> roundToDouble 0.1 \<le> 1
       \<and> (\<forall>d \<in> set ds. d \<le> 0)
       \<and> runWheelDouble images True ''a'' ds t ''a''
           = Some \<lparr>x = 0, y = 0, scale = 1351079888211149 / 1125899906842624\<rparr>
       \<and> tableOf (handleWheelDouble images True (sum_list ds) ''a'' t) ''a''
           = Some \<lparr>x = 0, y = 0, scale = 5404319552844595 / 4503599627370496\<rparr>
       \<and> (\<exists>a b. runWheelDouble images True ''a'' ds t ''a'' = Some a
             \<and> tableOf (handleWheelDouble images True (sum_list ds) ''a'' t) ''a'' = Some b
             \<and> \<bar>scale a - scale b\<bar> \<le> 3 / 2 ^ 47))"
proof -
  let ?I = "[img ''a'', img ''b'']"
  let ?T = "[''a'' \<mapsto> \<lparr>x = 0, y = 0, scale = 1\<rparr>, ''b'' \<mapsto> \<lparr>x = 4, y = 2, scale = (3::real)\<rparr>]"
  let ?ds = "[-100, -100 :: real]"
  have h1: "''a'' \<in> image_id ` set ?I" by simp
  have h2: "''a'' \<noteq> []" by simp
  have h3: "?T ''a'' = Some \<lparr>x = 0, y = 0, scale = 1\<rparr>" by simp
  have h4: "roundToDouble 0.1 \<le> scale \<lparr>x = 0, y = 0, scale = 1\<rparr>" by (simp add: minScale_double)
  have h5: "scale \<lparr>x = 0, y = 0, scale = 1\<rparr> \<le> 20" by simp
  have h6: "(\<forall>d \<in> set ?ds. 0 \<le> d) \<or> (\<forall>d \<in> set ?ds. d \<le> 0)
      \<or> (\<forall>k \<le> length ?ds.
            roundToDouble 0.1 \<le> scale \<lparr>x = 0, y = 0, scale = 1\<rparr> + sum_list (take k ?ds) * - roundToDouble ZOOM_SPEED
          \<and> scale \<lparr>x = 0, y = 0, scale = 1\<rparr> + sum_list (take k ?ds) * - roundToDouble ZOOM_SPEED \<le> 20)"
    by simp
  from wheel_split_within_rounding [where t = ?T and isSynced = True, OF h1 h2 h3 h4 h5 h6]
  obtain a b where ra: "runWheelDouble ?I True ''a'' ?ds ?T ''a'' = Some a"
    and rb: "tableOf (handleWheelDouble ?I True (sum_list ?ds) ''a'' ?T) ''a'' = Some b"
    and close: "\<bar>scale a - scale b\<bar> \<le> real (length ?ds + 1) / 2 ^ 47"
    by blast
  from close have "\<bar>scale a - scale b\<bar> \<le> 3 / 2 ^ 47" by simp
  with ra rb have bound: "\<exists>a b. runWheelDouble ?I True ''a'' ?ds ?T ''a'' = Some a
             \<and> tableOf (handleWheelDouble ?I True (sum_list ?ds) ''a'' ?T) ''a'' = Some b
             \<and> \<bar>scale a - scale b\<bar> \<le> 3 / 2 ^ 47"
    by blast
  have v1: "runWheelDouble ?I True ''a'' ?ds ?T ''a''
           = Some \<lparr>x = 0, y = 0, scale = 1351079888211149 / 1125899906842624\<rparr>"
    by code_simp
  have v2: "tableOf (handleWheelDouble ?I True (sum_list ?ds) ''a'' ?T) ''a''
           = Some \<lparr>x = 0, y = 0, scale = 5404319552844595 / 4503599627370496\<rparr>"
    by code_simp
  have h4': "roundToDouble 0.1 \<le> 1" using h4 by simp
  have h6': "\<forall>d \<in> set ?ds. d \<le> 0" by simp
  from h1 h2 h3 h4' h6' v1 v2 bound show ?thesis
    unfolding Let_def by (intro conjI)
qed

end
